theory Spec2Isabelle
  imports Complex_Main "HOL-Library.Log_Nat"
begin

section \<open>JavaScript numbers and rounding\<close>

text \<open>
  The sources are TypeScript. Numbers that hold integers (pixel coordinates, byte values,
  counts, millisecond timestamps) are modelled as \<open>int\<close>; quotients are formed in
  \<open>rat\<close>, exactly. \<^verbatim>\<open>Math.round(x)\<close> is the integer nearest to \<open>x\<close>, a tie going up
  (towards plus infinity).

  The quotients the code rounds are \<open>a / b\<close> of two integers with \<open>b\<close> an image side or a
  sample count. Such a quotient is at least \<open>1 / (2 * b)\<close> away from every half-integer that
  it does not hit exactly, far more than the relative error \<open>2^-53\<close> of a binary64
  division at the sizes an image can have, so rounding the exact quotient and rounding the
  binary64 quotient give the same integer.

  One expression of the code rounds a number that is not such a quotient: the alpha value of
  the background segmentation, computed from a mask value. It is evaluated in binary64
  arithmetic, which the section on the background segmentation models.
\<close>

definition Math_round :: "rat \<Rightarrow> int" where
  "Math_round x = \<lfloor>x + 1 / 2\<rfloor>"

definition Math_max :: "int \<Rightarrow> int \<Rightarrow> int" where
  "Math_max a b = (if a < b then b else a)"

section \<open>Downscaling before text detection\<close>

text \<open>
  \<^verbatim>\<open>resizeImageIfNeeded\<close> of the text-removal tool
  (\<^verbatim>\<open>src/components/RegistrationEditor.tsx\<close>, \<^verbatim>\<open>MAX_IMAGE_DIMENSION = 2560\<close>). It sets the
  canvas to the computed size, draws the image scaled to it and returns the size; the model
  is the size computation, on \<^verbatim>\<open>image.naturalWidth\<close> and \<^verbatim>\<open>image.naturalHeight\<close>.
\<close>

definition MAX_IMAGE_DIMENSION :: int where
  "MAX_IMAGE_DIMENSION = 2560"

record dims =
  width :: int
  height :: int

definition resizeImageIfNeeded :: "int \<Rightarrow> int \<Rightarrow> dims" where
  "resizeImageIfNeeded naturalWidth naturalHeight =
     (let width = naturalWidth; height = naturalHeight in
      if width > MAX_IMAGE_DIMENSION \<or> height > MAX_IMAGE_DIMENSION then
        if width > height then
          \<lparr>width = MAX_IMAGE_DIMENSION,
           height = Math_round (of_int (height * MAX_IMAGE_DIMENSION) / of_int width)\<rparr>
        else
          \<lparr>width = Math_round (of_int (width * MAX_IMAGE_DIMENSION) / of_int height),
           height = MAX_IMAGE_DIMENSION\<rparr>
      else \<lparr>width = width, height = height\<rparr>)"

section \<open>Stacking order of a saved overlay\<close>

text \<open>
  \<^verbatim>\<open>handleSave\<close> of \<^verbatim>\<open>src/pages/OverlayCreator.tsx\<close> asks the \<^verbatim>\<open>overlays\<close> table for
  the row of the base map with the greatest \<^verbatim>\<open>z_index\<close>
  (\<^verbatim>\<open>order('z_index', {ascending: false}).limit(1).maybeSingle()\<close>) and inserts the new
  overlay with \<^verbatim>\<open>(maxZData?.z_index || -1) + 1\<close>. The column is
  \<^verbatim>\<open>z_index integer DEFAULT 0\<close>, so a stored value may be NULL; a descending order in
  PostgreSQL puts NULL first.
\<close>

record overlay =
  base_map_id :: string
  z_index :: "int option"

text \<open>The greatest element of a descending order with NULL first.\<close>

fun desc_first :: "int option list \<Rightarrow> int option" where
  "desc_first [] = None"
| "desc_first (z # zs) =
     (if zs = [] then z
      else case (z, desc_first zs) of (Some a, Some b) \<Rightarrow> Some (max a b) | _ \<Rightarrow> None)"

text \<open>
  The query: \<open>None\<close> is \<^verbatim>\<open>data = null\<close> (no row), \<open>Some z\<close> the row found, with its
  \<^verbatim>\<open>z_index\<close>.
\<close>

definition select_max_z :: "overlay list \<Rightarrow> string \<Rightarrow> int option option" where
  "select_max_z table baseMapId =
     (let zs = map z_index (filter (\<lambda>r. base_map_id r = baseMapId) table) in
      if zs = [] then None else Some (desc_first zs))"

text \<open>
  \<^verbatim>\<open>a || b\<close> on a number or \<^verbatim>\<open>null\<close>/\<^verbatim>\<open>undefined\<close>: \<^verbatim>\<open>0\<close>, \<^verbatim>\<open>null\<close> and \<^verbatim>\<open>undefined\<close> are
  falsy.
\<close>

definition or_default :: "int option \<Rightarrow> int \<Rightarrow> int" where
  "or_default v d = (case v of None \<Rightarrow> d | Some n \<Rightarrow> if n = 0 then d else n)"

definition nextZIndex :: "overlay list \<Rightarrow> string \<Rightarrow> int" where
  "nextZIndex table baseMapId =
     (let maxZData = select_max_z table baseMapId in
      or_default (case maxZData of None \<Rightarrow> None | Some z \<Rightarrow> z) (- 1) + 1)"

text \<open>The insert of \<^verbatim>\<open>handleSave\<close>, on the table.\<close>

definition handleSave_insert :: "overlay list \<Rightarrow> string \<Rightarrow> overlay list" where
  "handleSave_insert table baseMapId =
     table @ [\<lparr>base_map_id = baseMapId, z_index = Some (nextZIndex table baseMapId)\<rparr>]"

section \<open>Errors and external calls\<close>

text \<open>
  An error object has a name and a message. A call into a collaborator (the hosted
  database, the auth service, the speech provider) either throws or returns; what it
  throws is an \<^verbatim>\<open>Error\<close> instance or some other value, which is what the
  \<^verbatim>\<open>error instanceof Error\<close> tests of the catch blocks tell apart. A call that may throw
  has the result type \<open>thrown + 'a\<close>.
\<close>

datatype js_error = JsError (name: string) (message: string)

datatype thrown = ErrorInstance js_error | OtherValue

section \<open>Rate limiter\<close>

text \<open>
  \<^verbatim>\<open>supabase/functions/_shared/rateLimit.ts\<close>. The policy table is the object literal
  \<^verbatim>\<open>RATE_LIMITS\<close>; \<^verbatim>\<open>RATE_LIMITS[endpoint]\<close> is a JavaScript property access, which
  finds the own properties of the literal and then the members that every object literal
  inherits from \<^verbatim>\<open>Object.prototype\<close> (functions and objects, all truthy, none with a
  \<^verbatim>\<open>window\<close> or \<^verbatim>\<open>requests\<close> property). The inherited names are those of the
  language standard; a runtime that removes \<^verbatim>\<open>__proto__\<close> finds nothing under that one
  name, and no statement below is about it.
\<close>

record RateLimitConfig =
  requests :: int
  window :: int

definition RATE_LIMITS :: "(string \<times> RateLimitConfig) list" where
  "RATE_LIMITS =
     [(''historian-qa'', \<lparr>requests = 10, window = 60\<rparr>),
      (''overlay-artist'', \<lparr>requests = 5, window = 60\<rparr>),
      (''text-to-speech'', \<lparr>requests = 20, window = 60\<rparr>)]"

definition Object_prototype_names :: "string list" where
  "Object_prototype_names =
     [''constructor'', ''hasOwnProperty'', ''isPrototypeOf'', ''propertyIsEnumerable'',
      ''toLocaleString'', ''toString'', ''valueOf'', ''__defineGetter__'',
      ''__defineSetter__'', ''__lookupGetter__'', ''__lookupSetter__'', ''__proto__'']"

datatype limit_lookup = Undefined | Config RateLimitConfig | Inherited

definition RATE_LIMITS_get :: "string \<Rightarrow> limit_lookup" where
  "RATE_LIMITS_get endpointName =
     (case map_of RATE_LIMITS endpointName of
        Some limit \<Rightarrow> Config limit
      | None \<Rightarrow> if endpointName \<in> set Object_prototype_names then Inherited else Undefined)"

text \<open>
  The \<^verbatim>\<open>request_logs\<close> table (migration \<^verbatim>\<open>request_logs\<close>): one row per logged request;
  \<^verbatim>\<open>created_at\<close> in milliseconds since the epoch, as \<^verbatim>\<open>Date.now()\<close> counts. The store
  is the table together with how it answers: a call succeeds, returns
  \<^verbatim>\<open>{data: null, error}\<close>, or throws (the store cannot be reached). The row limit of
  the query interface (1000 rows by default) is above every policy's maximum and does not
  change what \<open>checkRateLimit\<close> returns; it is not modelled.
\<close>

record request_log =
  user_id :: string
  endpoint :: string
  created_at :: int

datatype answer = Succeeds | ReturnsError js_error | Throws thrown

record log_store =
  rows :: "request_log list"
  on_select :: answer
  on_insert :: answer

record query_response =
  resp_data :: "request_log list option"
  resp_error :: "js_error option"

text \<open>
  \<^verbatim>\<open>from('request_logs').select('id').eq('user_id', userId).eq('endpoint', endpoint)
  .gte('created_at', windowStart)\<close>
\<close>

definition select_request_logs ::
    "log_store \<Rightarrow> string \<Rightarrow> string \<Rightarrow> int \<Rightarrow> thrown + query_response" where
  "select_request_logs supabase userId endpointName windowStart =
     (case on_select supabase of
        Succeeds \<Rightarrow>
          Inr \<lparr>resp_data = Some (filter (\<lambda>r. user_id r = userId \<and> endpoint r = endpointName \<and>
                                      windowStart \<le> created_at r) (rows supabase)),
               resp_error = None\<rparr>
      | ReturnsError e \<Rightarrow> Inr \<lparr>resp_data = None, resp_error = Some e\<rparr>
      | Throws t \<Rightarrow> Inl t)"

text \<open>
  \<^verbatim>\<open>from('request_logs').insert({user_id, endpoint})\<close>: the row gets
  \<^verbatim>\<open>created_at = now()\<close>, and the trigger \<^verbatim>\<open>cleanup_request_logs\<close> then deletes the rows
  older than one hour.
\<close>

definition delete_old_request_logs :: "int \<Rightarrow> request_log list \<Rightarrow> request_log list" where
  "delete_old_request_logs now rs = filter (\<lambda>r. \<not> created_at r < now - 3600000) rs"

definition insert_request_log ::
    "log_store \<Rightarrow> int \<Rightarrow> string \<Rightarrow> string \<Rightarrow> thrown + (log_store \<times> js_error option)" where
  "insert_request_log supabase now userId endpointName =
     (case on_insert supabase of
        Succeeds \<Rightarrow>
          Inr (supabase\<lparr>rows := delete_old_request_logs now
                 (rows supabase @
                    [\<lparr>user_id = userId, endpoint = endpointName, created_at = now\<rparr>])\<rparr>,
               None)
      | ReturnsError e \<Rightarrow> Inr (supabase, Some e)
      | Throws t \<Rightarrow> Inl t)"

record rate_check =
  allowed :: bool
  remaining :: int

text \<open>
  \<^verbatim>\<open>checkRateLimit(userId, endpoint, supabase)\<close>, with \<^verbatim>\<open>Date.now()\<close> as the argument
  \<open>now\<close>. For an inherited member \<^verbatim>\<open>limit.window\<close> is \<^verbatim>\<open>undefined\<close>, the window start is
  \<^verbatim>\<open>NaN\<close>, and \<^verbatim>\<open>new Date(NaN).toISOString()\<close> throws a \<^verbatim>\<open>RangeError\<close>, before the
  \<^verbatim>\<open>try\<close> block is entered.
\<close>

definition checkRateLimit ::
    "int \<Rightarrow> string \<Rightarrow> string \<Rightarrow> log_store \<Rightarrow> thrown + rate_check" where
  "checkRateLimit now userId endpointName supabase =
     (case RATE_LIMITS_get endpointName of
        Undefined \<Rightarrow> Inr \<lparr>allowed = True, remaining = 999\<rparr>
      | Inherited \<Rightarrow> Inl (ErrorInstance (JsError ''RangeError'' ''Invalid time value''))
      | Config limit \<Rightarrow>
          (let windowStart = now - window limit * 1000 in
           case select_request_logs supabase userId endpointName windowStart of
             Inl t \<Rightarrow> Inr \<lparr>allowed = True, remaining = 999\<rparr>
           | Inr resp \<Rightarrow>
               (case resp_error resp of
                  Some e \<Rightarrow> Inr \<lparr>allowed = True, remaining = 999\<rparr>
                | None \<Rightarrow>
                    (let count = (case resp_data resp of None \<Rightarrow> 0 | Some d \<Rightarrow> int (length d));
                         remaining = Math_max 0 (requests limit - count)
                     in Inr \<lparr>allowed = count < requests limit, remaining = remaining\<rparr>))))"

text \<open>
  \<^verbatim>\<open>logRequest(userId, endpoint, supabase)\<close>: the insert inside \<^verbatim>\<open>try\<close>; what it throws
  is caught and only its name is logged, and a returned \<^verbatim>\<open>error\<close> is not looked at. The
  result is the store after the call.
\<close>

definition logRequest :: "int \<Rightarrow> string \<Rightarrow> string \<Rightarrow> log_store \<Rightarrow> thrown + log_store" where
  "logRequest now userId endpointName supabase =
     (case insert_request_log supabase now userId endpointName of
        Inl t \<Rightarrow> Inr supabase
      | Inr (supabase', e) \<Rightarrow> Inr supabase')"

section \<open>Edge handlers\<close>

text \<open>
  A request body is JSON. \<open>property\<close> is the destructuring
  \<^verbatim>\<open>const {k} = value\<close>, with \<open>None\<close> for \<^verbatim>\<open>undefined\<close>; \<open>truthy\<close> is what \<^verbatim>\<open>!v\<close> negates.
\<close>

datatype json = JNull | JBool bool | JNum int | JStr string | JArr "json list"
  | JObj "(string \<times> json) list"

fun property :: "json \<Rightarrow> string \<Rightarrow> json option" where
  "property (JObj kvs) k = map_of kvs k"
| "property _ k = None"

fun truthy :: "json option \<Rightarrow> bool" where
  "truthy None = False"
| "truthy (Some JNull) = False"
| "truthy (Some (JBool b)) = b"
| "truthy (Some (JNum n)) = (n \<noteq> 0)"
| "truthy (Some (JStr s)) = (s \<noteq> [])"
| "truthy (Some (JArr xs)) = True"
| "truthy (Some (JObj kvs)) = True"

text \<open>
  \<open>json_body\<close> is what \<^verbatim>\<open>await req.json()\<close> gives: the parsed value, or the
  \<^verbatim>\<open>SyntaxError\<close> thrown for a body that is not JSON.
\<close>

record request =
  req_method :: string
  authorization :: "string option"
  json_body :: "thrown + json"

datatype body = Empty | JsonBody json | Bytes "nat list"

record response =
  status :: nat
  headers :: "(string \<times> string) list"
  body :: body

record get_user_response =
  user :: "string option"
  authError :: "js_error option"

record fetch_response =
  ok :: bool
  fetch_status :: nat
  arrayBuffer :: "thrown + nat list"

text \<open>
  The world a handler runs in: the clock, the auth service (\<^verbatim>\<open>supabase.auth.getUser()\<close>
  for the \<^verbatim>\<open>Authorization\<close> header the client was created with), the request log
  store, the \<^verbatim>\<open>ELEVENLABS_API_KEY\<close> of the environment, the speech provider, the
  \<^verbatim>\<open>user_roles\<close> lookup for the admin role (whether a row came back), the upload to the
  \<^verbatim>\<open>tiles\<close> bucket (with the \<^verbatim>\<open>new Uint8Array(bytes)\<close> before it), the insert into
  \<^verbatim>\<open>posters\<close>, and \<^verbatim>\<open>crypto.randomUUID()\<close>. The Supabase URL and keys of the
  environment are taken as set. Console output is not modelled.
\<close>

record world =
  Date_now :: int
  db_now :: int
  auth_getUser :: "string option \<Rightarrow> thrown + get_user_response"
  request_logs :: log_store
  ELEVENLABS_API_KEY :: "string option"
  elevenlabs_fetch :: "thrown + fetch_response"
  user_roles_admin :: "string \<Rightarrow> thrown + bool"
  storage_upload :: "thrown + js_error option"
  posters_insert :: "thrown + js_error option"
  crypto_randomUUID :: string

text \<open>
  What a handler did, in order: the rate limiter consulted, a request log entry written, the
  role looked up, and the upstream side effects (speech API call, storage upload, insert
  into \<^verbatim>\<open>posters\<close>).
\<close>

datatype effect = RateLimitCheck string string | RequestLogWrite string string
  | RoleQuery string | SpeechApiCall | StorageUpload string | PosterInsert string

fun upstream :: "effect \<Rightarrow> bool" where
  "upstream SpeechApiCall = True"
| "upstream (StorageUpload posterId) = True"
| "upstream (PosterInsert posterId) = True"
| "upstream e = False"

record run =
  response :: response
  effects :: "effect list"
  logs :: log_store

definition corsHeaders :: "(string \<times> string) list" where
  "corsHeaders =
     [(''Access-Control-Allow-Origin'', ''*''),
      (''Access-Control-Allow-Headers'', ''authorization, x-client-info, apikey, content-type'')]"

definition json_response :: "nat \<Rightarrow> (string \<times> json) list \<Rightarrow> response" where
  "json_response code props =
     \<lparr>status = code, headers = corsHeaders @ [(''Content-Type'', ''application/json'')],
      body = JsonBody (JObj props)\<rparr>"

definition preflight :: response where
  "preflight = \<lparr>status = 200, headers = corsHeaders, body = Empty\<rparr>"

definition unauthorized :: response where
  "unauthorized = json_response 401 [(''error'', JStr ''Unauthorized'')]"

definition rate_limited :: response where
  "rate_limited =
     json_response 429
       [(''error'', JStr ''Rate limit exceeded. Please try again later.''),
        (''remaining'', JNum 0)]"

text \<open>
  \<^verbatim>\<open>supabase/functions/text-to-speech/index.ts\<close>. Everything after the preflight test is
  inside one \<^verbatim>\<open>try\<close>; its \<^verbatim>\<open>catch\<close> answers \<open>speech_failed\<close>. The handler is one
  function in the source; here it is cut into its three stages, last stage first:
  the delegation to the speech provider (from the read of the API key on), the admission
  control with the audit (rate limit check, \<^verbatim>\<open>logRequest\<close>), and the entry (preflight, body,
  authentication). The body is read first; destructuring \<^verbatim>\<open>null\<close> throws a
  \<^verbatim>\<open>TypeError\<close>. \<^verbatim>\<open>modelId\<close> only goes into the upstream request.
\<close>

definition speech_failed :: response where
  "speech_failed = json_response 500 [(''error'', JStr ''Unable to generate speech. Please try again.'')]"

definition not_configured :: response where
  "not_configured =
     json_response 500 [(''error'', JStr ''Speech service not configured. Contact administrator.'')]"

definition audio_failed :: response where
  "audio_failed = json_response 500 [(''error'', JStr ''Failed to generate audio. Please try again.'')]"

definition tts_delegate ::
    "world \<Rightarrow> json option \<Rightarrow> json option \<Rightarrow> effect list \<Rightarrow> log_store \<Rightarrow> run" where
  "tts_delegate w text voiceId sofar supabase =
     (if ELEVENLABS_API_KEY w = None \<or> ELEVENLABS_API_KEY w = Some [] then
        \<lparr>response = not_configured, effects = sofar, logs = supabase\<rparr>
      else if \<not> truthy text \<or> \<not> truthy voiceId then
        \<lparr>response = json_response 400
           [(''error'', JStr ''Missing required parameters: text and voiceId'')],
         effects = sofar, logs = supabase\<rparr>
      else
        case elevenlabs_fetch w of
          Inl t \<Rightarrow> \<lparr>response = speech_failed, effects = sofar @ [SpeechApiCall], logs = supabase\<rparr>
        | Inr resp \<Rightarrow>
            if \<not> ok resp then
              \<lparr>response = audio_failed, effects = sofar @ [SpeechApiCall], logs = supabase\<rparr>
            else
              case arrayBuffer resp of
                Inl t \<Rightarrow>
                  \<lparr>response = speech_failed, effects = sofar @ [SpeechApiCall], logs = supabase\<rparr>
              | Inr audioData \<Rightarrow>
                  \<lparr>response =
                     \<lparr>status = 200, headers = corsHeaders @ [(''Content-Type'', ''audio/mpeg'')],
                      body = Bytes audioData\<rparr>,
                   effects = sofar @ [SpeechApiCall], logs = supabase\<rparr>)"

definition tts_admit :: "world \<Rightarrow> json option \<Rightarrow> json option \<Rightarrow> string \<Rightarrow> run" where
  "tts_admit w text voiceId userId =
     (let supabase = request_logs w in
      case checkRateLimit (Date_now w) userId ''text-to-speech'' supabase of
        Inl t \<Rightarrow>
          \<lparr>response = speech_failed, effects = [RateLimitCheck userId ''text-to-speech''],
           logs = supabase\<rparr>
      | Inr rateCheck \<Rightarrow>
          if \<not> allowed rateCheck then
            \<lparr>response = rate_limited, effects = [RateLimitCheck userId ''text-to-speech''],
             logs = supabase\<rparr>
          else
            case logRequest (db_now w) userId ''text-to-speech'' supabase of
              Inl t \<Rightarrow>
                \<lparr>response = speech_failed,
                 effects = [RateLimitCheck userId ''text-to-speech'',
                            RequestLogWrite userId ''text-to-speech''],
                 logs = supabase\<rparr>
            | Inr supabase' \<Rightarrow>
                tts_delegate w text voiceId
                  [RateLimitCheck userId ''text-to-speech'',
                   RequestLogWrite userId ''text-to-speech'']
                  supabase')"

definition text_to_speech :: "world \<Rightarrow> request \<Rightarrow> run" where
  "text_to_speech w req =
     (if req_method req = ''OPTIONS'' then
        \<lparr>response = preflight, effects = [], logs = request_logs w\<rparr>
      else
        case json_body req of
          Inl t \<Rightarrow> \<lparr>response = speech_failed, effects = [], logs = request_logs w\<rparr>
        | Inr j \<Rightarrow>
            if j = JNull then \<lparr>response = speech_failed, effects = [], logs = request_logs w\<rparr>
            else
              case auth_getUser w (Some (case authorization req of None \<Rightarrow> [] | Some h \<Rightarrow> h)) of
                Inl t \<Rightarrow> \<lparr>response = speech_failed, effects = [], logs = request_logs w\<rparr>
              | Inr r \<Rightarrow>
                  if authError r \<noteq> None \<or> user r = None then
                    \<lparr>response = unauthorized, effects = [], logs = request_logs w\<rparr>
                  else
                    tts_admit w (property j ''text'') (property j ''voiceId'')
                      (case user r of Some userId \<Rightarrow> userId | None \<Rightarrow> []))"

text \<open>
  \<^verbatim>\<open>supabase/functions/ingestPoster/index.ts\<close>. Its \<^verbatim>\<open>catch\<close> answers with
  \<^verbatim>\<open>error instanceof Error ? error.message : 'An error occurred'\<close>, and the two error
  returns after the upload and after the insert answer with the \<^verbatim>\<open>message\<close> of the error
  the store returned. The handler does not touch the request log store. Its stages, last
  first: the upload with the insert, the role check with the validation of the body, and
  the entry (preflight, authentication).
\<close>

definition ingest_caught :: "thrown \<Rightarrow> response" where
  "ingest_caught t =
     json_response 500
       [(''error'', JStr (case t of ErrorInstance e \<Rightarrow> message e
                          | OtherValue \<Rightarrow> ''An error occurred''))]"

definition destructure_null :: thrown where
  "destructure_null =
     ErrorInstance (JsError ''TypeError''
       ''Cannot destructure property 'title' of '(intermediate value)' as it is null.'')"

definition forbidden :: response where
  "forbidden = json_response 403 [(''error'', JStr ''Forbidden - Admin access required'')]"

definition queued :: "string \<Rightarrow> response" where
  "queued posterId =
     json_response 200
       [(''posterId'', JStr posterId), (''status'', JStr ''queued''),
        (''message'', JStr ''Poster uploaded. Tiling will be processed by worker.'')]"

definition ingest_store :: "world \<Rightarrow> string \<Rightarrow> run" where
  "ingest_store w userId =
     (let posterId = crypto_randomUUID w;
          sofar = [RoleQuery userId, StorageUpload posterId]
      in
      case storage_upload w of
        Inl t \<Rightarrow> \<lparr>response = ingest_caught t, effects = sofar, logs = request_logs w\<rparr>
      | Inr (Some uploadError) \<Rightarrow>
          \<lparr>response = json_response 500 [(''error'', JStr (message uploadError))],
           effects = sofar, logs = request_logs w\<rparr>
      | Inr None \<Rightarrow>
          (case posters_insert w of
             Inl t \<Rightarrow>
               \<lparr>response = ingest_caught t, effects = sofar @ [PosterInsert posterId],
                logs = request_logs w\<rparr>
           | Inr (Some insertError) \<Rightarrow>
               \<lparr>response = json_response 500 [(''error'', JStr (message insertError))],
                effects = sofar @ [PosterInsert posterId], logs = request_logs w\<rparr>
           | Inr None \<Rightarrow>
               \<lparr>response = queued posterId, effects = sofar @ [PosterInsert posterId],
                logs = request_logs w\<rparr>))"

definition ingest_admin :: "world \<Rightarrow> request \<Rightarrow> string \<Rightarrow> run" where
  "ingest_admin w req userId =
     (case user_roles_admin w userId of
        Inl t \<Rightarrow>
          \<lparr>response = ingest_caught t, effects = [RoleQuery userId], logs = request_logs w\<rparr>
      | Inr roles \<Rightarrow>
          if \<not> roles then
            \<lparr>response = forbidden, effects = [RoleQuery userId], logs = request_logs w\<rparr>
          else
            case json_body req of
              Inl t \<Rightarrow>
                \<lparr>response = ingest_caught t, effects = [RoleQuery userId],
                 logs = request_logs w\<rparr>
            | Inr j \<Rightarrow>
                if j = JNull then
                  \<lparr>response = ingest_caught destructure_null, effects = [RoleQuery userId],
                   logs = request_logs w\<rparr>
                else if \<not> truthy (property j ''title'') \<or> \<not> truthy (property j ''filename'')
                        \<or> \<not> truthy (property j ''bytes'')
                then
                  \<lparr>response = json_response 400 [(''error'', JStr ''Missing required fields'')],
                   effects = [RoleQuery userId], logs = request_logs w\<rparr>
                else ingest_store w userId)"

definition ingestPoster :: "world \<Rightarrow> request \<Rightarrow> run" where
  "ingestPoster w req =
     (if req_method req = ''OPTIONS'' then
        \<lparr>response = preflight, effects = [], logs = request_logs w\<rparr>
      else
        case auth_getUser w (authorization req) of
          Inl t \<Rightarrow> \<lparr>response = ingest_caught t, effects = [], logs = request_logs w\<rparr>
        | Inr r \<Rightarrow>
            if authError r \<noteq> None \<or> user r = None then
              \<lparr>response = unauthorized, effects = [], logs = request_logs w\<rparr>
            else ingest_admin w req (case user r of Some userId \<Rightarrow> userId | None \<Rightarrow> []))"

text \<open>The subject a credential resolves to, if the auth service names one.\<close>

definition subject_of :: "world \<Rightarrow> string option \<Rightarrow> string option" where
  "subject_of w credential =
     (case auth_getUser w credential of
        Inl t \<Rightarrow> None
      | Inr r \<Rightarrow> (case authError r of None \<Rightarrow> user r | Some e \<Rightarrow> None))"

text \<open>The credential each handler hands to the auth service.\<close>

definition tts_credential :: "request \<Rightarrow> string option" where
  "tts_credential req = Some (case authorization req of None \<Rightarrow> [] | Some h \<Rightarrow> h)"

definition ingest_credential :: "request \<Rightarrow> string option" where
  "ingest_credential req = authorization req"

section \<open>Concrete worlds and requests\<close>

text \<open>
  A world in which everything works: one valid token, belonging to the admin
  \<open>user-1\<close>, an empty request log, a speech provider that answers with three bytes.
\<close>

definition example_auth :: "string option \<Rightarrow> thrown + get_user_response" where
  "example_auth credential =
     (if credential = Some ''Bearer valid-token''
      then Inr \<lparr>user = Some ''user-1'', authError = None\<rparr>
      else Inr \<lparr>user = None, authError = Some (JsError ''AuthApiError'' ''invalid JWT'')\<rparr>)"

definition example_world :: world where
  "example_world =
     \<lparr>Date_now = 1700000000000,
      db_now = 1700000000000,
      auth_getUser = example_auth,
      request_logs = \<lparr>rows = [], on_select = Succeeds, on_insert = Succeeds\<rparr>,
      ELEVENLABS_API_KEY = Some ''sk-key'',
      elevenlabs_fetch = Inr \<lparr>ok = True, fetch_status = 200, arrayBuffer = Inr [73, 68, 51]\<rparr>,
      user_roles_admin = (\<lambda>userId. Inr (userId = ''user-1'')),
      storage_upload = Inr None,
      posters_insert = Inr None,
      crypto_randomUUID = ''poster-1''\<rparr>"

definition speech_request :: request where
  "speech_request =
     \<lparr>req_method = ''POST'', authorization = Some ''Bearer valid-token'',
      json_body = Inr (JObj [(''text'', JStr ''Hello''), (''voiceId'', JStr ''voice-1'')])\<rparr>"

definition poster_request :: request where
  "poster_request =
     \<lparr>req_method = ''POST'', authorization = Some ''Bearer valid-token'',
      json_body = Inr (JObj [(''title'', JStr ''Map of 1850''), (''filename'', JStr ''map.jpg''),
                             (''bytes'', JArr [JNum 255, JNum 216])])\<rparr>"

text \<open>Twenty requests of \<open>user-1\<close> to the speech endpoint, ten seconds old.\<close>

definition full_window :: log_store where
  "full_window =
     \<lparr>rows = replicate 20
         \<lparr>user_id = ''user-1'', endpoint = ''text-to-speech'', created_at = 1699999990000\<rparr>,
      on_select = Succeeds, on_insert = Succeeds\<rparr>"

text \<open>A store that cannot be reached.\<close>

definition unreachable :: log_store where
  "unreachable =
     \<lparr>rows = [],
      on_select = Throws (ErrorInstance (JsError ''TypeError'' ''error sending request'')),
      on_insert = Throws (ErrorInstance (JsError ''TypeError'' ''error sending request''))\<rparr>"

text \<open>A request without a credential whose body is not JSON.\<close>

definition malformed_request :: request where
  "malformed_request =
     \<lparr>req_method = ''POST'', authorization = None,
      json_body = Inl (ErrorInstance (JsError ''SyntaxError'' ''Unexpected end of JSON input''))\<rparr>"

section \<open>The window count of the specification\<close>

text \<open>
  The number of request log entries of subject \<open>S\<close> for endpoint \<open>E\<close> whose timestamp is
  at or after \<open>now - w\<close>, for a window of \<open>w\<close> seconds and timestamps in milliseconds.
\<close>

definition rows_in_window :: "request_log list \<Rightarrow> string \<Rightarrow> string \<Rightarrow> int \<Rightarrow> int \<Rightarrow> int" where
  "rows_in_window rs S E now w =
     int (length (filter (\<lambda>r. user_id r = S \<and> endpoint r = E \<and> now - w * 1000 \<le> created_at r) rs))"

section \<open>Background segmentation\<close>

text \<open>
  \<^verbatim>\<open>removeBackground\<close> of the image editor (\<^verbatim>\<open>src/components/RegistrationEditor.tsx\<close>):
  the step from the segmentation result and the pixels of the canvas to the output pixels.
  A pixel array is a \<^verbatim>\<open>Uint8ClampedArray\<close> of RGBA bytes: a write clamps the integer
  to \<open>0..255\<close>, and a write beyond the end is ignored, as \<open>list_update\<close> does.

  A mask value is a number, and \<^verbatim>\<open>Math.round((1 - maskValue) * 255)\<close> is computed in
  binary64 arithmetic: the difference is rounded to the nearest binary64 number, then the
  product is, and \<^verbatim>\<open>Math.round\<close> takes the integer nearest to that. A finite binary64
  number is a rational, and mask values are modelled as rationals.

  \<open>binary64 x\<close> is the binary64 number nearest to the rational \<open>x\<close>, a tie going to the
  one whose significand is even. The binary64 numbers around \<open>x\<close> are the multiples of
  \<open>ulp x\<close>: \<open>2^(e - 52)\<close> for \<open>2^e \<le> \<bar>x\<bar> < 2^(e + 1)\<close>, which gives 53 significant
  bits, and \<open>2^-1074\<close>, the spacing of the subnormal numbers, below \<open>2^-1022\<close>. A result
  beyond the largest binary64 number stays finite here, where JavaScript has
  \<^verbatim>\<open>Infinity\<close>; the pixel array stores either as 255, or as 0 when it is negative.
\<close>

definition round_ties_even :: "rat \<Rightarrow> int" where
  "round_ties_even y =
     (let f = \<lfloor>y\<rfloor>; r = y - of_int f in
      if r < 1 / 2 then f else if 1 / 2 < r then f + 1 else if even f then f else f + 1)"

text \<open>
  The exponent \<open>e\<close> of a positive rational \<open>p / q\<close>, from the bit lengths of \<open>p\<close> and
  \<open>q\<close>: it is their difference or one less.
\<close>

definition exponent :: "rat \<Rightarrow> int" where
  "exponent x =
     (case quotient_of x of (p, q) \<Rightarrow>
        let d = bitlen p - bitlen q in if 2 powi d \<le> x then d else d - 1)"

definition ulp :: "rat \<Rightarrow> rat" where
  "ulp x = 2 powi (max (exponent \<bar>x\<bar>) (- 1022) - 52)"

definition binary64 :: "rat \<Rightarrow> rat" where
  "binary64 x = (if x = 0 then 0 else of_int (round_ties_even (x / ulp x)) * ulp x)"

definition to_uint8_clamped :: "int \<Rightarrow> nat" where
  "to_uint8_clamped v = nat (max 0 (min 255 v))"

text \<open>
  \<^verbatim>\<open>for (let i = 0; i < result[0].mask.data.length; i++)\<close>, from index \<open>i\<close> on; the list
  is the rest of the mask.
\<close>

fun mask_loop :: "nat \<Rightarrow> rat list \<Rightarrow> nat list \<Rightarrow> nat list" where
  "mask_loop i [] data = data"
| "mask_loop i (maskValue # rest) data =
     (let alpha = Math_round (binary64 (binary64 (1 - maskValue) * 255)) in
      mask_loop (i + 1) rest (data[i * 4 + 3 := to_uint8_clamped alpha]))"

text \<open>
  The segmentation result is an array of segments, each with or without a mask. The
  function throws when the array is empty or its first segment has no mask.
\<close>

definition removeBackground :: "rat list option list \<Rightarrow> nat list \<Rightarrow> thrown + nat list" where
  "removeBackground result data =
     (case result of
        [] \<Rightarrow> Inl (ErrorInstance (JsError ''Error'' ''Invalid segmentation result''))
      | None # segments \<Rightarrow> Inl (ErrorInstance (JsError ''Error'' ''Invalid segmentation result''))
      | Some maskData # segments \<Rightarrow> Inr (mask_loop 0 maskData data))"

text \<open>
  The binary64 number written \<^verbatim>\<open>0.1\<close>, and the one written \<^verbatim>\<open>0.8725490196078431\<close>.
\<close>

definition tenth :: rat where
  "tenth = 3602879701896397 / 36028797018963968"

definition mask_0_8725 :: rat where
  "mask_0_8725 = 1964805719784187 / 2251799813685248"

section \<open>Region inpainting\<close>

text \<open>
  \<^verbatim>\<open>inpaintRegion\<close> and the loop of \<^verbatim>\<open>handleRemoveText\<close> in the text-removal tool
  (\<^verbatim>\<open>src/components/RegistrationEditor.tsx\<close>). An \<^verbatim>\<open>ImageData\<close> has a width, a height
  and the RGBA bytes of its pixels, row by row; every \<^verbatim>\<open>ImageData\<close> has
  \<open>4 * width * height\<close> bytes, each at most 255 (\<open>wf_image\<close>), so every read that
  the bounds checks of the code let through is inside the array
  (\<open>pixel_index_in_data\<close> below). A text region is the bounding box of a word the OCR
  found, in whole pixels.
\<close>

record ImageData =
  img_width :: int
  img_height :: int
  img_data :: "nat list"

record TextRegion =
  region_x :: int
  region_y :: int
  region_width :: int
  region_height :: int
  region_text :: string

definition wf_image :: "ImageData \<Rightarrow> bool" where
  "wf_image imageData =
     (0 \<le> img_width imageData \<and> 0 \<le> img_height imageData \<and>
      int (length (img_data imageData)) = 4 * img_width imageData * img_height imageData \<and>
      list_all (\<lambda>v. v \<le> 255) (img_data imageData))"

definition margin :: int where
  "margin = 5"

text \<open>\<^verbatim>\<open>(sy * imgWidth + sx) * 4\<close>, the index of the red byte of the pixel \<open>(sx, sy)\<close>.\<close>

definition pixel_index :: "ImageData \<Rightarrow> int \<Rightarrow> int \<Rightarrow> nat" where
  "pixel_index imageData sx sy = nat ((sy * img_width imageData + sx) * 4)"

text \<open>
  The body of the two sampling loops, for the sample position \<open>(sx, sy)\<close>; the
  accumulator is \<open>(r, g, b, count)\<close>. The region is \<open>x, y, w, h\<close>.
\<close>

definition sample ::
    "ImageData \<Rightarrow> int \<Rightarrow> int \<Rightarrow> int \<Rightarrow> int \<Rightarrow> int \<Rightarrow> int \<Rightarrow> nat \<times> nat \<times> nat \<times> nat
       \<Rightarrow> nat \<times> nat \<times> nat \<times> nat" where
  "sample imageData x y w h sx sy acc =
     (if sx \<ge> x \<and> sx < x + w \<and> sy \<ge> y \<and> sy < y + h then acc
      else if sx < 0 \<or> sy < 0 \<or> sx \<ge> img_width imageData \<or> sy \<ge> img_height imageData then acc
      else
        case acc of (r, g, b, count) \<Rightarrow>
          (let idx = pixel_index imageData sx sy in
           (r + img_data imageData ! idx,
            g + img_data imageData ! (idx + 1),
            b + img_data imageData ! (idx + 2),
            count + 1)))"

text \<open>
  \<^verbatim>\<open>for (let dy = -margin; dy <= margin; dy++) for (let dx = -margin; dx <= margin; dx++)\<close>
\<close>

definition surrounding ::
    "ImageData \<Rightarrow> int \<Rightarrow> int \<Rightarrow> int \<Rightarrow> int \<Rightarrow> int \<Rightarrow> int \<Rightarrow> nat \<times> nat \<times> nat \<times> nat" where
  "surrounding imageData x y w h px py =
     foldl (\<lambda>acc dy.
              foldl (\<lambda>acc dx. sample imageData x y w h (px + dx) (py + dy) acc)
                acc [- margin..margin])
       (0, 0, 0, 0) [- margin..margin]"

text \<open>The body of the two pixel loops, for the pixel \<open>(px, py)\<close>.\<close>

definition inpaint_pixel ::
    "int \<Rightarrow> int \<Rightarrow> int \<Rightarrow> int \<Rightarrow> ImageData \<Rightarrow> int \<Rightarrow> int \<Rightarrow> ImageData" where
  "inpaint_pixel x y w h imageData px py =
     (if px < 0 \<or> py < 0 \<or> px \<ge> img_width imageData \<or> py \<ge> img_height imageData
      then imageData
      else
        case surrounding imageData x y w h px py of (r, g, b, count) \<Rightarrow>
          if count > 0 then
            (let idx = pixel_index imageData px py in
             imageData\<lparr>img_data := (img_data imageData)
               [idx := to_uint8_clamped (Math_round (of_nat r / of_nat count)),
                idx + 1 := to_uint8_clamped (Math_round (of_nat g / of_nat count)),
                idx + 2 := to_uint8_clamped (Math_round (of_nat b / of_nat count)),
                idx + 3 := 255]\<rparr>)
          else imageData)"

text \<open>
  \<^verbatim>\<open>for (let py = y; py < y + height; py++) for (let px = x; px < x + width; px++)\<close>,
  on the image data, which the loop body changes in place.
\<close>

definition inpaintRegion :: "ImageData \<Rightarrow> int \<Rightarrow> int \<Rightarrow> int \<Rightarrow> int \<Rightarrow> ImageData" where
  "inpaintRegion imageData x y w h =
     foldl (\<lambda>imageData py.
              foldl (\<lambda>imageData px. inpaint_pixel x y w h imageData px py)
                imageData [x..x + w - 1])
       imageData [y..y + h - 1]"

text \<open>
  \<^verbatim>\<open>handleRemoveText\<close>: nothing is done without regions or without the original image
  data; otherwise every region is inpainted, in order, on a working copy of the original.
\<close>

definition handleRemoveText :: "ImageData option \<Rightarrow> TextRegion list \<Rightarrow> ImageData option" where
  "handleRemoveText originalImageData textRegions =
     (case originalImageData of
        None \<Rightarrow> None
      | Some original \<Rightarrow>
          if textRegions = [] then None
          else Some (foldl (\<lambda>workingImageData region.
                              inpaintRegion workingImageData (region_x region) (region_y region)
                                (region_width region) (region_height region))
                       original textRegions))"

section \<open>The fill of the specification\<close>

text \<open>
  The pixels within the window of radius 5 around \<open>(px, py)\<close> that lie inside the image
  and outside every region of a list, and the fill the specification names: the rounded
  average of their red, green and blue bytes, and alpha 255.
\<close>

definition in_region :: "TextRegion \<Rightarrow> int \<Rightarrow> int \<Rightarrow> bool" where
  "in_region region sx sy =
     (region_x region \<le> sx \<and> sx < region_x region + region_width region \<and>
      region_y region \<le> sy \<and> sy < region_y region + region_height region)"

definition window :: "int \<Rightarrow> int \<Rightarrow> (int \<times> int) list" where
  "window px py = concat (map (\<lambda>dy. map (\<lambda>dx. (px + dx, py + dy)) [- 5..5]) [- 5..5])"

definition neighbours :: "ImageData \<Rightarrow> TextRegion list \<Rightarrow> int \<Rightarrow> int \<Rightarrow> (int \<times> int) list" where
  "neighbours imageData regions px py =
     filter (\<lambda>(sx, sy). 0 \<le> sx \<and> 0 \<le> sy \<and> sx < img_width imageData \<and> sy < img_height imageData
                       \<and> list_all (\<lambda>region. \<not> in_region region sx sy) regions)
       (window px py)"

definition channel_sum :: "ImageData \<Rightarrow> (int \<times> int) list \<Rightarrow> nat \<Rightarrow> nat" where
  "channel_sum imageData ps c =
     sum_list (map (\<lambda>(sx, sy). img_data imageData ! (pixel_index imageData sx sy + c)) ps)"

definition average_fill :: "ImageData \<Rightarrow> TextRegion list \<Rightarrow> int \<Rightarrow> int \<Rightarrow> nat list" where
  "average_fill imageData regions px py =
     (let ps = neighbours imageData regions px py in
      [nat (Math_round (of_nat (channel_sum imageData ps 0) / of_nat (length ps))),
       nat (Math_round (of_nat (channel_sum imageData ps 1) / of_nat (length ps))),
       nat (Math_round (of_nat (channel_sum imageData ps 2) / of_nat (length ps))),
       255])"

text \<open>
  For the proofs: the samples the loops of \<open>surrounding\<close> take for a region, the pixels
  the loops of \<open>inpaintRegion\<close> visit, in order, and what the loop body computes for a
  pixel: the number of its samples and the four bytes it writes.
\<close>

definition eligible :: "ImageData \<Rightarrow> int \<Rightarrow> int \<Rightarrow> int \<Rightarrow> int \<Rightarrow> int \<times> int \<Rightarrow> bool" where
  "eligible imageData x y w h p =
     (case p of (sx, sy) \<Rightarrow>
        0 \<le> sx \<and> 0 \<le> sy \<and> sx < img_width imageData \<and> sy < img_height imageData \<and>
        \<not> (x \<le> sx \<and> sx < x + w \<and> y \<le> sy \<and> sy < y + h))"

definition region_pixels :: "int \<Rightarrow> int \<Rightarrow> int \<Rightarrow> int \<Rightarrow> (int \<times> int) list" where
  "region_pixels x y w h =
     concat (map (\<lambda>py. map (\<lambda>px. (px, py)) [x..x + w - 1]) [y..y + h - 1])"

definition sample_count :: "ImageData \<Rightarrow> int \<Rightarrow> int \<Rightarrow> int \<Rightarrow> int \<Rightarrow> int \<Rightarrow> int \<Rightarrow> nat" where
  "sample_count imageData x y w h px py =
     (case surrounding imageData x y w h px py of (r, g, b, count) \<Rightarrow> count)"

definition fill_bytes :: "ImageData \<Rightarrow> int \<Rightarrow> int \<Rightarrow> int \<Rightarrow> int \<Rightarrow> int \<Rightarrow> int \<Rightarrow> nat list" where
  "fill_bytes imageData x y w h px py =
     (case surrounding imageData x y w h px py of (r, g, b, count) \<Rightarrow>
        [to_uint8_clamped (Math_round (of_nat r / of_nat count)),
         to_uint8_clamped (Math_round (of_nat g / of_nat count)),
         to_uint8_clamped (Math_round (of_nat b / of_nat count)),
         255])"

text \<open>
  Three pixels in a row, red 0, 100 and 200, with a text region on the first and one on the
  second; and a single pixel covered by a text region.
\<close>

definition three_pixels :: ImageData where
  "three_pixels =
     \<lparr>img_width = 3, img_height = 1, img_data = [0, 0, 0, 255, 100, 0, 0, 255, 200, 0, 0, 255]\<rparr>"

definition first_word :: TextRegion where
  "first_word =
     \<lparr>region_x = 0, region_y = 0, region_width = 1, region_height = 1, region_text = ''a''\<rparr>"

definition second_word :: TextRegion where
  "second_word =
     \<lparr>region_x = 1, region_y = 0, region_width = 1, region_height = 1, region_text = ''b''\<rparr>"

definition one_pixel :: ImageData where
  "one_pixel = \<lparr>img_width = 1, img_height = 1, img_data = [10, 20, 30, 40]\<rparr>"

section \<open>Properties\<close>

subsection \<open>Rounding\<close>

lemma Math_round_div:
  assumes "0 < b"
  shows "Math_round (of_int a / of_int b) = (2 * a + b) div (2 * b)"
proof -
  have "(of_int a / of_int b + 1 / 2 :: rat) = of_int (2 * a + b) / of_int (2 * b)"
    using assms by (simp add: field_simps)
  then show ?thesis
    unfolding Math_round_def by (simp only: floor_divide_of_int_eq)
qed

lemma Math_round_of_int: "Math_round (of_int n) = n"
proof -
  have "\<lfloor>rat_of_int n + 1 / 2\<rfloor> = n"
    by (rule floor_unique) simp_all
  then show ?thesis by (simp add: Math_round_def)
qed

subsection \<open>Downscaling\<close>

lemma resize_square:
  assumes "MAX_IMAGE_DIMENSION < w"
  shows "resizeImageIfNeeded w w = \<lparr>width = 2560, height = 2560\<rparr>"
proof -
  have w: "w \<noteq> 0" using assms by (simp add: MAX_IMAGE_DIMENSION_def)
  then have "(rat_of_int w * 2560) / rat_of_int w = rat_of_int 2560"
    by simp
  then have "Math_round ((rat_of_int w * 2560) / rat_of_int w) = 2560"
    by (simp only: Math_round_of_int)
  then show ?thesis
    using assms by (simp add: resizeImageIfNeeded_def MAX_IMAGE_DIMENSION_def)
qed

text \<open>
  C9. An image with a side above the cap of 2560 gets its longest side set to exactly 2560
  and its other side to \<open>round (other * 2560 / longest)\<close>; an image within the cap keeps
  its size; 4000 x 2000 becomes 2560 x 1280.
\<close>

theorem resizeImageIfNeeded_longest_side_cap:
  "(2560 < w \<or> 2560 < h \<longrightarrow>
      (h < w \<longrightarrow> resizeImageIfNeeded w h =
         \<lparr>width = 2560, height = Math_round (of_int (h * 2560) / of_int w)\<rparr>) \<and>
      (w < h \<longrightarrow> resizeImageIfNeeded w h =
         \<lparr>width = Math_round (of_int (w * 2560) / of_int h), height = 2560\<rparr>) \<and>
      (w = h \<longrightarrow> resizeImageIfNeeded w h = \<lparr>width = 2560, height = 2560\<rparr>)) \<and>
   (w \<le> 2560 \<and> h \<le> 2560 \<longrightarrow> resizeImageIfNeeded w h = \<lparr>width = w, height = h\<rparr>) \<and>
   resizeImageIfNeeded 4000 2000 = \<lparr>width = 2560, height = 1280\<rparr>"
proof (intro conjI impI)
  assume "2560 < w \<or> 2560 < h" and "h < w"
  then show "resizeImageIfNeeded w h =
      \<lparr>width = 2560, height = Math_round (of_int (h * 2560) / of_int w)\<rparr>"
    by (auto simp: resizeImageIfNeeded_def MAX_IMAGE_DIMENSION_def)
next
  assume "2560 < w \<or> 2560 < h" and "w < h"
  then show "resizeImageIfNeeded w h =
      \<lparr>width = Math_round (of_int (w * 2560) / of_int h), height = 2560\<rparr>"
    by (auto simp: resizeImageIfNeeded_def MAX_IMAGE_DIMENSION_def)
next
  assume "2560 < w \<or> 2560 < h" and "w = h"
  then show "resizeImageIfNeeded w h = \<lparr>width = 2560, height = 2560\<rparr>"
    using resize_square [of w] by (simp add: MAX_IMAGE_DIMENSION_def)
next
  assume "w \<le> 2560 \<and> h \<le> 2560"
  then show "resizeImageIfNeeded w h = \<lparr>width = w, height = h\<rparr>"
    by (simp add: resizeImageIfNeeded_def MAX_IMAGE_DIMENSION_def)
next
  have "Math_round (rat_of_int (2000 * 2560) / rat_of_int 4000) = 1280"
    using Math_round_div [of 4000 "2000 * 2560"] by simp
  then show "resizeImageIfNeeded 4000 2000 = \<lparr>width = 2560, height = 1280\<rparr>"
    by (simp add: resizeImageIfNeeded_def MAX_IMAGE_DIMENSION_def)
qed

text \<open>A wide, a tall and a square image above the cap, and one within it.\<close>

theorem resizeImageIfNeeded_longest_side_cap_witness:
  "resizeImageIfNeeded 4000 2000 = \<lparr>width = 2560, height = 1280\<rparr> \<and>
   resizeImageIfNeeded 1000 3000 = \<lparr>width = 853, height = 2560\<rparr> \<and>
   resizeImageIfNeeded 3000 3000 = \<lparr>width = 2560, height = 2560\<rparr> \<and>
   resizeImageIfNeeded 800 600 = \<lparr>width = 800, height = 600\<rparr>"
proof -
  have r: "Math_round (rat_of_int (1000 * 2560) / rat_of_int 3000) = 853"
    using Math_round_div [of 3000 "1000 * 2560"] by simp
  show ?thesis
    using resizeImageIfNeeded_longest_side_cap [of 4000 2000]
      resizeImageIfNeeded_longest_side_cap [of 1000 3000]
      resizeImageIfNeeded_longest_side_cap [of 3000 3000]
      resizeImageIfNeeded_longest_side_cap [of 800 600] r
    by simp
qed

subsection \<open>Stacking order\<close>

text \<open>The first overlay of a base map gets 0.\<close>

lemma nextZIndex_empty:
  "\<forall>r \<in> set table. base_map_id r \<noteq> baseMapId \<Longrightarrow> nextZIndex table baseMapId = 0"
  by (simp add: nextZIndex_def select_max_z_def or_default_def filter_empty_conv)

lemma desc_first_upper:
  "desc_first zs = Some m \<Longrightarrow> Some z \<in> set zs \<Longrightarrow> z \<le> m"
  by (induction zs arbitrary: m) (auto split: option.splits if_splits)

text \<open>
  When the greatest stored value is not 0 (and no stored value is NULL), the new value is
  above every stored one.
\<close>

lemma nextZIndex_above:
  assumes "select_max_z table baseMapId = Some (Some m)" and "m \<noteq> 0"
    and "r \<in> set table" and "base_map_id r = baseMapId" and "z_index r = Some z"
  shows "z < nextZIndex table baseMapId"
proof -
  let ?zs = "map z_index (filter (\<lambda>r. base_map_id r = baseMapId) table)"
  from assms(1) have d: "desc_first ?zs = Some m"
    by (simp add: select_max_z_def Let_def split: if_splits)
  from assms(3-5) have "Some z \<in> set ?zs" by force
  with d have "z \<le> m" by (rule desc_first_upper)
  moreover have "nextZIndex table baseMapId = m + 1"
    using assms(1,2) by (simp add: nextZIndex_def or_default_def)
  ultimately show ?thesis by simp
qed

text \<open>
  C10. The claim: the new overlay's \<open>z_index\<close> is strictly greater than that of every
  overlay already stored for the base map. On a base map whose only overlay has
  \<open>z_index = 0\<close> the code computes \<open>(0 || -1) + 1 = 0\<close>: the second overlay is stored
  with the stacking order of the first.
\<close>

theorem nextZIndex_zero_twice:
  "nextZIndex [\<lparr>base_map_id = ''map-1'', z_index = Some 0\<rparr>] ''map-1'' = 0 \<and>
   handleSave_insert [\<lparr>base_map_id = ''map-1'', z_index = Some 0\<rparr>] ''map-1'' =
     [\<lparr>base_map_id = ''map-1'', z_index = Some 0\<rparr>,
      \<lparr>base_map_id = ''map-1'', z_index = Some 0\<rparr>]"
  by (simp add: handleSave_insert_def nextZIndex_def select_max_z_def or_default_def)

subsection \<open>Rate limiter\<close>

text \<open>
  C3. For an endpoint \<open>E\<close> with the policy \<open>(m, w)\<close> and a store that answers the query,
  \<open>checkRateLimit\<close> counts the rows of \<open>(S, E)\<close> with a timestamp at or after
  \<open>now - w\<close> seconds and returns \<open>allowed = (count < m)\<close> and
  \<open>remaining = max 0 (m - count)\<close>; a row older than the window does not change the result.
\<close>

theorem checkRateLimit_counts_window:
  assumes "RATE_LIMITS_get E = Config \<lparr>requests = m, window = w\<rparr>"
    and "on_select st = Succeeds"
  shows "checkRateLimit now S E st =
           Inr \<lparr>allowed = rows_in_window (rows st) S E now w < m,
                remaining = max 0 (m - rows_in_window (rows st) S E now w)\<rparr> \<and>
         (\<forall>old. created_at old < now - w * 1000 \<longrightarrow>
            checkRateLimit now S E (st\<lparr>rows := old # rows st\<rparr>) = checkRateLimit now S E st)"
  using assms
  by (simp add: checkRateLimit_def select_request_logs_def rows_in_window_def Let_def
      Math_max_def max_def)

text \<open>A full window, a full window with one older row added, and a table with one row inside
  the window, one a millisecond too old, one of another subject and one of another endpoint.\<close>

theorem checkRateLimit_counts_window_witness:
  "checkRateLimit 1700000000000 ''user-1'' ''text-to-speech'' full_window =
     Inr \<lparr>allowed = False, remaining = 0\<rparr> \<and>
   checkRateLimit 1700000000000 ''user-1'' ''text-to-speech''
     (full_window\<lparr>rows := \<lparr>user_id = ''user-1'', endpoint = ''text-to-speech'',
                            created_at = 1699999930000\<rparr> # rows full_window\<rparr>) =
     Inr \<lparr>allowed = False, remaining = 0\<rparr> \<and>
   checkRateLimit 1700000000000 ''user-1'' ''text-to-speech''
     \<lparr>rows = [\<lparr>user_id = ''user-1'', endpoint = ''text-to-speech'', created_at = 1699999940000\<rparr>,
              \<lparr>user_id = ''user-1'', endpoint = ''text-to-speech'', created_at = 1699999939999\<rparr>,
              \<lparr>user_id = ''user-2'', endpoint = ''text-to-speech'', created_at = 1699999990000\<rparr>,
              \<lparr>user_id = ''user-1'', endpoint = ''historian-qa'', created_at = 1699999990000\<rparr>],
      on_select = Succeeds, on_insert = Succeeds\<rparr> =
     Inr \<lparr>allowed = True, remaining = 19\<rparr>"
proof -
  have c: "RATE_LIMITS_get ''text-to-speech'' = Config \<lparr>requests = 20, window = 60\<rparr>"
    by (simp add: RATE_LIMITS_get_def RATE_LIMITS_def)
  have s: "on_select full_window = Succeeds"
    by (simp add: full_window_def)
  show ?thesis
    using checkRateLimit_counts_window [OF c s, of 1700000000000 "''user-1''"]
      checkRateLimit_counts_window [OF c, of
        "\<lparr>rows = [\<lparr>user_id = ''user-1'', endpoint = ''text-to-speech'', created_at = 1699999940000\<rparr>,
              \<lparr>user_id = ''user-1'', endpoint = ''text-to-speech'', created_at = 1699999939999\<rparr>,
              \<lparr>user_id = ''user-2'', endpoint = ''text-to-speech'', created_at = 1699999990000\<rparr>,
              \<lparr>user_id = ''user-1'', endpoint = ''historian-qa'', created_at = 1699999990000\<rparr>],
      on_select = Succeeds, on_insert = Succeeds\<rparr>" 1700000000000 "''user-1''"]
    by (simp add: full_window_def rows_in_window_def)
qed

text \<open>An endpoint name that the lookup does not find is let through.\<close>

lemma checkRateLimit_unknown_endpoint:
  "RATE_LIMITS_get endpointName = Undefined \<Longrightarrow>
   checkRateLimit now userId endpointName supabase = Inr \<lparr>allowed = True, remaining = 999\<rparr>"
  by (simp add: checkRateLimit_def)

text \<open>
  C5. The claim: for every endpoint name without an entry in the policy table
  \<open>checkRateLimit\<close> returns \<open>allowed = true, remaining = 999\<close>. The name
  \<open>constructor\<close> has no entry in the table, but the property access finds
  \<^verbatim>\<open>Object.prototype.constructor\<close>, the test \<^verbatim>\<open>!limit\<close> fails, and the computation of the
  window start throws.
\<close>

theorem checkRateLimit_inherited_name_throws:
  "map_of RATE_LIMITS ''constructor'' = None \<and>
   checkRateLimit now userId ''constructor'' supabase =
     Inl (ErrorInstance (JsError ''RangeError'' ''Invalid time value''))"
  by (simp add: checkRateLimit_def RATE_LIMITS_get_def RATE_LIMITS_def Object_prototype_names_def)

text \<open>
  Whenever the limiter reaches the store and the store does not answer the query, the
  request is let through.
\<close>

lemma checkRateLimit_fail_open:
  "RATE_LIMITS_get endpointName = Config limit \<Longrightarrow> on_select supabase \<noteq> Succeeds \<Longrightarrow>
   checkRateLimit now userId endpointName supabase = Inr \<lparr>allowed = True, remaining = 999\<rparr>"
  by (cases "on_select supabase")
     (simp_all add: checkRateLimit_def select_request_logs_def)

text \<open>\<open>logRequest\<close> returns, whatever the store does.\<close>

lemma logRequest_returns: "\<exists>supabase'. logRequest now userId endpointName supabase = Inr supabase'"
  by (simp add: logRequest_def split: sum.splits prod.splits)

subsection \<open>Edge handlers: what a run does\<close>

lemma tts_delegate_effects:
  "effects (tts_delegate w tx voiceId sofar s) = sofar \<or>
   effects (tts_delegate w tx voiceId sofar s) = sofar @ [SpeechApiCall]"
  by (simp add: tts_delegate_def split: sum.splits)

lemma tts_admit_effects:
  "effects (tts_admit w tx voiceId u) = [RateLimitCheck u ''text-to-speech''] \<or>
   effects (tts_admit w tx voiceId u) =
     [RateLimitCheck u ''text-to-speech'', RequestLogWrite u ''text-to-speech''] \<or>
   effects (tts_admit w tx voiceId u) =
     [RateLimitCheck u ''text-to-speech'', RequestLogWrite u ''text-to-speech'', SpeechApiCall]"
proof -
  let ?sofar = "[RateLimitCheck u ''text-to-speech'', RequestLogWrite u ''text-to-speech'']"
  have d: "\<And>s. effects (tts_delegate w tx voiceId ?sofar s) = ?sofar \<or>
      effects (tts_delegate w tx voiceId ?sofar s) = ?sofar @ [SpeechApiCall]"
    by (rule tts_delegate_effects)
  show ?thesis
    unfolding tts_admit_def Let_def
    using d by (auto split: sum.splits)
qed

lemma tts_unauth_no_effects:
  "subject_of w (tts_credential req) = None \<Longrightarrow>
   effects (text_to_speech w req) = [] \<and> logs (text_to_speech w req) = request_logs w"
  by (auto simp add: text_to_speech_def subject_of_def tts_credential_def
      split: sum.splits option.splits)

lemma ingest_unauth_no_effects:
  "subject_of w (ingest_credential req) = None \<Longrightarrow>
   effects (ingestPoster w req) = [] \<and> logs (ingestPoster w req) = request_logs w"
  by (auto simp add: ingestPoster_def subject_of_def ingest_credential_def
      split: sum.splits option.splits)

lemma tts_unauth_401:
  "req_method req \<noteq> ''OPTIONS'' \<Longrightarrow> auth_getUser w (tts_credential req) = Inr r \<Longrightarrow>
   authError r \<noteq> None \<or> user r = None \<Longrightarrow> json_body req = Inr j \<Longrightarrow> j \<noteq> JNull \<Longrightarrow>
   response (text_to_speech w req) = unauthorized"
  by (auto simp add: text_to_speech_def tts_credential_def)

lemma ingest_unauth_401:
  "req_method req \<noteq> ''OPTIONS'' \<Longrightarrow> auth_getUser w (ingest_credential req) = Inr r \<Longrightarrow>
   authError r \<noteq> None \<or> user r = None \<Longrightarrow>
   response (ingestPoster w req) = unauthorized"
  by (auto simp add: ingestPoster_def ingest_credential_def)

lemma status_unauthorized: "status unauthorized = 401"
  by (simp add: unauthorized_def json_response_def)

text \<open>
  Where a request without a subject is answered 401. For both handlers and every request
  whose credential does not resolve to a subject, no request log entry is written and
  nothing is called upstream. A request other than a preflight, to which the auth service
  answers with an error or without a user, is answered 401 by the poster handler, and by
  the speech handler when it has read the body as a JSON value other than \<open>null\<close>.
\<close>

lemma unauthenticated_request_rejected:
  "(subject_of w (tts_credential req) = None \<longrightarrow>
      effects (text_to_speech w req) = [] \<and> logs (text_to_speech w req) = request_logs w) \<and>
   (subject_of w (ingest_credential req) = None \<longrightarrow>
      effects (ingestPoster w req) = [] \<and> logs (ingestPoster w req) = request_logs w) \<and>
   (req_method req \<noteq> ''OPTIONS'' \<and> auth_getUser w (tts_credential req) = Inr r \<and>
    (authError r \<noteq> None \<or> user r = None) \<and> json_body req = Inr j \<and> j \<noteq> JNull \<longrightarrow>
      response (text_to_speech w req) = unauthorized) \<and>
   (req_method req \<noteq> ''OPTIONS'' \<and> auth_getUser w (ingest_credential req) = Inr r \<and>
    (authError r \<noteq> None \<or> user r = None) \<longrightarrow>
      response (ingestPoster w req) = unauthorized) \<and>
   status unauthorized = 401"
  using tts_unauth_no_effects [of w req] ingest_unauth_no_effects [of w req]
    tts_unauth_401 [of req w r j] ingest_unauth_401 [of req w r] status_unauthorized
  by blast

lemma status_speech_failed: "status speech_failed = 500"
  by (simp add: speech_failed_def json_response_def)

lemma tts_unreadable_body:
  "req_method req \<noteq> ''OPTIONS'' \<Longrightarrow> json_body req = Inl t \<or> json_body req = Inr JNull \<Longrightarrow>
   text_to_speech w req = \<lparr>response = speech_failed, effects = [], logs = request_logs w\<rparr>"
  by (auto simp add: text_to_speech_def)

text \<open>
  C1 fails on the speech handler. It reads the body before it authenticates
  (\<^verbatim>\<open>await req.json()\<close> on line 16, \<^verbatim>\<open>supabase.auth.getUser()\<close> on line 26, both
  inside the \<^verbatim>\<open>try\<close> block): a request other than a preflight whose body cannot be
  read as JSON, or is \<open>null\<close>, is answered 500 by the catch-all whatever its credential,
  and so also when it has none. No request log entry is written and nothing is called
  upstream. The poster handler authenticates first, and answers 401 to the same request
  without a credential.
\<close>

theorem text_to_speech_reads_body_before_authentication:
  "(req_method req \<noteq> ''OPTIONS'' \<and> (json_body req = Inl t \<or> json_body req = Inr JNull) \<longrightarrow>
      response (text_to_speech w req) = speech_failed \<and>
      effects (text_to_speech w req) = [] \<and> logs (text_to_speech w req) = request_logs w) \<and>
   status speech_failed = 500 \<and>
   subject_of example_world (tts_credential malformed_request) = None \<and>
   status (response (text_to_speech example_world malformed_request)) = 500 \<and>
   subject_of example_world (ingest_credential malformed_request) = None \<and>
   status (response (ingestPoster example_world malformed_request)) = 401"
proof (intro conjI impI)
  assume a: "req_method req \<noteq> ''OPTIONS'' \<and> (json_body req = Inl t \<or> json_body req = Inr JNull)"
  then have r: "text_to_speech w req = \<lparr>response = speech_failed, effects = [], logs = request_logs w\<rparr>"
    using tts_unreadable_body [of req t w] by blast
  show "response (text_to_speech w req) = speech_failed" by (simp add: r)
  show "effects (text_to_speech w req) = []" by (simp add: r)
  show "logs (text_to_speech w req) = request_logs w" by (simp add: r)
next
  show "status speech_failed = 500" by (rule status_speech_failed)
next
  show "subject_of example_world (tts_credential malformed_request) = None"
    by (simp add: subject_of_def tts_credential_def example_world_def example_auth_def
        malformed_request_def)
next
  show "status (response (text_to_speech example_world malformed_request)) = 500"
    by (simp add: text_to_speech_def malformed_request_def status_speech_failed)
next
  show "subject_of example_world (ingest_credential malformed_request) = None"
    by (simp add: subject_of_def ingest_credential_def example_world_def example_auth_def
        malformed_request_def)
next
  show "status (response (ingestPoster example_world malformed_request)) = 401"
    by (simp add: ingestPoster_def malformed_request_def example_world_def example_auth_def
        status_unauthorized)
qed

text \<open>The request without a credential whose body is not JSON.\<close>

theorem text_to_speech_reads_body_before_authentication_witness:
  "response (text_to_speech example_world malformed_request) = speech_failed \<and>
   effects (text_to_speech example_world malformed_request) = [] \<and>
   logs (text_to_speech example_world malformed_request) = request_logs example_world"
  using text_to_speech_reads_body_before_authentication [of malformed_request
      "ErrorInstance (JsError ''SyntaxError'' ''Unexpected end of JSON input'')" example_world]
  by (simp add: malformed_request_def)

subsection \<open>Edge handlers: failure responses\<close>

lemma tts_delegate_500:
  "status (response (tts_delegate w tx voiceId sofar s)) = 500 \<Longrightarrow>
   response (tts_delegate w tx voiceId sofar s) \<in> {speech_failed, not_configured, audio_failed}"
  by (auto simp add: tts_delegate_def json_response_def split: sum.splits if_splits)

lemma tts_admit_500:
  "status (response (tts_admit w tx voiceId u)) = 500 \<Longrightarrow>
   response (tts_admit w tx voiceId u) \<in> {speech_failed, not_configured, audio_failed}"
  unfolding tts_admit_def Let_def
  using tts_delegate_500
  by (auto simp add: rate_limited_def json_response_def split: sum.splits if_splits)

text \<open>
  The speech handler sanitizes: each of its 500 answers is one of three fixed messages,
  whatever was thrown or returned upstream.
\<close>

lemma text_to_speech_sanitized:
  "status (response (text_to_speech w req)) = 500 \<Longrightarrow>
   response (text_to_speech w req) \<in> {speech_failed, not_configured, audio_failed}"
  unfolding text_to_speech_def
  using tts_admit_500
  by (auto simp add: preflight_def unauthorized_def json_response_def split: sum.splits if_splits)

text \<open>
  C2. The claim: a failure of the upstream side effect yields a 500 answer with a generic
  message only. \<open>ingestPoster\<close> answers with the message of the error the storage upload
  returned, and with the message of an exception thrown by the insert.
\<close>

theorem ingestPoster_answers_with_error_message:
  "response (ingestPoster
      (example_world\<lparr>storage_upload := Inr (Some (JsError ''StorageApiError'' ''Bucket not found''))\<rparr>)
      poster_request) =
     json_response 500 [(''error'', JStr ''Bucket not found'')] \<and>
   response (ingestPoster
      (example_world\<lparr>posters_insert := Inl (ErrorInstance (JsError ''TypeError''
          ''error sending request for url (http://kong:8000/rest/v1/posters)''))\<rparr>)
      poster_request) =
     json_response 500
       [(''error'', JStr ''error sending request for url (http://kong:8000/rest/v1/posters)'')]"
  by (simp add: example_world_def example_auth_def poster_request_def ingestPoster_def
      ingest_admin_def ingest_store_def ingest_caught_def Let_def)

text \<open>The status and the body of the first of the two answers.\<close>

theorem ingestPoster_answers_with_error_message_witness:
  "status (response (ingestPoster
      (example_world\<lparr>storage_upload := Inr (Some (JsError ''StorageApiError'' ''Bucket not found''))\<rparr>)
      poster_request)) = 500 \<and>
   body (response (ingestPoster
      (example_world\<lparr>storage_upload := Inr (Some (JsError ''StorageApiError'' ''Bucket not found''))\<rparr>)
      poster_request)) = JsonBody (JObj [(''error'', JStr ''Bucket not found'')])"
  using ingestPoster_answers_with_error_message by (simp add: json_response_def)

subsection \<open>Edge handlers: admission control\<close>

lemma tts_admit_rate_check_first:
  assumes "effects (tts_admit w tx voiceId u) = pre @ e # post" and "upstream e"
  shows "RateLimitCheck u ''text-to-speech'' \<in> set pre"
proof -
  from tts_admit_effects [of w tx voiceId u]
  consider "[RateLimitCheck u ''text-to-speech''] = pre @ e # post"
    | "[RateLimitCheck u ''text-to-speech'', RequestLogWrite u ''text-to-speech''] = pre @ e # post"
    | "[RateLimitCheck u ''text-to-speech'', RequestLogWrite u ''text-to-speech'', SpeechApiCall]
         = pre @ e # post"
    using assms(1) by auto
  then show ?thesis
  proof cases
    case 1
    with assms(2) show ?thesis by (auto simp: Cons_eq_append_conv)
  next
    case 2
    with assms(2) show ?thesis by (auto simp: Cons_eq_append_conv)
  next
    case 3
    with assms(2) show ?thesis by (auto simp: Cons_eq_append_conv)
  qed
qed

lemma text_to_speech_rate_check_first:
  assumes "effects (text_to_speech w req) = pre @ e # post" and "upstream e"
  shows "\<exists>u. RateLimitCheck u ''text-to-speech'' \<in> set pre"
proof -
  from assms(1) obtain tx voiceId u where "effects (tts_admit w tx voiceId u) = pre @ e # post"
    unfolding text_to_speech_def by (auto split: sum.splits if_splits)
  then show ?thesis
    using tts_admit_rate_check_first [OF _ assms(2)] by blast
qed

lemma text_to_speech_rate_limited:
  assumes "req_method req \<noteq> ''OPTIONS''" and "json_body req = Inr j" and "j \<noteq> JNull"
    and "subject_of w (tts_credential req) = Some u"
    and "checkRateLimit (Date_now w) u ''text-to-speech'' (request_logs w) = Inr rateCheck"
    and "\<not> allowed rateCheck"
  shows "text_to_speech w req =
    \<lparr>response = rate_limited, effects = [RateLimitCheck u ''text-to-speech''],
     logs = request_logs w\<rparr>"
proof -
  from assms(4) obtain r where r: "auth_getUser w (tts_credential req) = Inr r"
      "authError r = None" "user r = Some u"
    by (auto simp: subject_of_def split: sum.splits option.splits)
  have "tts_admit w (property j ''text'') (property j ''voiceId'') u =
    \<lparr>response = rate_limited, effects = [RateLimitCheck u ''text-to-speech''],
     logs = request_logs w\<rparr>"
    using assms(5,6) by (simp add: tts_admit_def)
  then show ?thesis
    using assms(1-3) r by (simp add: text_to_speech_def tts_credential_def)
qed

lemma text_to_speech_consults_limiter:
  assumes "req_method req \<noteq> ''OPTIONS''" and "json_body req = Inr j" and "j \<noteq> JNull"
    and "subject_of w (tts_credential req) = Some u"
  shows "\<exists>rest. effects (text_to_speech w req) = RateLimitCheck u ''text-to-speech'' # rest"
proof -
  from assms(4) obtain r where r: "auth_getUser w (tts_credential req) = Inr r"
      "authError r = None" "user r = Some u"
    by (auto simp: subject_of_def split: sum.splits option.splits)
  have "text_to_speech w req = tts_admit w (property j ''text'') (property j ''voiceId'') u"
    using assms(1-3) r by (simp add: text_to_speech_def tts_credential_def)
  then show ?thesis
    using tts_admit_effects [of w "property j ''text''" "property j ''voiceId''" u] by auto
qed

lemma ingest_store_effects:
  "RateLimitCheck u e \<notin> set (effects (ingest_store w userId))"
  by (simp add: ingest_store_def Let_def split: sum.splits option.splits)

lemma ingest_admin_effects:
  "RateLimitCheck u e \<notin> set (effects (ingest_admin w req userId))"
  by (simp add: ingest_admin_def ingest_store_effects split: sum.splits)

lemma ingestPoster_no_rate_check:
  "RateLimitCheck u e \<notin> set (effects (ingestPoster w req))"
  by (simp add: ingestPoster_def ingest_admin_effects split: sum.splits)

text \<open>
  C4, as the code has it. The speech handler consults the rate limiter before anything
  upstream: every upstream effect of a run has a rate limit check before it, and a run for
  an authenticated request with a readable body starts with the check. When the limiter
  answers \<open>allowed = false\<close>, the handler answers 429 with \<open>remaining: 0\<close>, writes no
  log entry and calls nothing upstream. \<open>ingestPoster\<close> never consults the rate limiter.
\<close>

theorem edge_handler_admission_control:
  "(effects (text_to_speech w req) = pre @ e # post \<and> upstream e \<longrightarrow>
      (\<exists>u. RateLimitCheck u ''text-to-speech'' \<in> set pre)) \<and>
   (req_method req \<noteq> ''OPTIONS'' \<and> json_body req = Inr j \<and> j \<noteq> JNull \<and>
    subject_of w (tts_credential req) = Some u \<longrightarrow>
      (\<exists>rest. effects (text_to_speech w req) = RateLimitCheck u ''text-to-speech'' # rest)) \<and>
   (req_method req \<noteq> ''OPTIONS'' \<and> json_body req = Inr j \<and> j \<noteq> JNull \<and>
    subject_of w (tts_credential req) = Some u \<and>
    checkRateLimit (Date_now w) u ''text-to-speech'' (request_logs w) = Inr rateCheck \<and>
    \<not> allowed rateCheck \<longrightarrow>
      text_to_speech w req =
        \<lparr>response = rate_limited, effects = [RateLimitCheck u ''text-to-speech''],
         logs = request_logs w\<rparr>) \<and>
   status rate_limited = 429 \<and>
   body rate_limited =
     JsonBody (JObj [(''error'', JStr ''Rate limit exceeded. Please try again later.''),
                     (''remaining'', JNum 0)]) \<and>
   RateLimitCheck subject endpointName \<notin> set (effects (ingestPoster w req))"
proof (intro conjI impI)
  assume "effects (text_to_speech w req) = pre @ e # post \<and> upstream e"
  then show "\<exists>u. RateLimitCheck u ''text-to-speech'' \<in> set pre"
    using text_to_speech_rate_check_first by blast
next
  assume "req_method req \<noteq> ''OPTIONS'' \<and> json_body req = Inr j \<and> j \<noteq> JNull \<and>
    subject_of w (tts_credential req) = Some u"
  then show "\<exists>rest. effects (text_to_speech w req) = RateLimitCheck u ''text-to-speech'' # rest"
    using text_to_speech_consults_limiter by blast
next
  assume "req_method req \<noteq> ''OPTIONS'' \<and> json_body req = Inr j \<and> j \<noteq> JNull \<and>
    subject_of w (tts_credential req) = Some u \<and>
    checkRateLimit (Date_now w) u ''text-to-speech'' (request_logs w) = Inr rateCheck \<and>
    \<not> allowed rateCheck"
  then show "text_to_speech w req =
        \<lparr>response = rate_limited, effects = [RateLimitCheck u ''text-to-speech''],
         logs = request_logs w\<rparr>"
    using text_to_speech_rate_limited by blast
next
  show "status rate_limited = 429"
    by (simp add: rate_limited_def json_response_def)
next
  show "body rate_limited =
     JsonBody (JObj [(''error'', JStr ''Rate limit exceeded. Please try again later.''),
                     (''remaining'', JNum 0)])"
    by (simp add: rate_limited_def json_response_def)
next
  show "RateLimitCheck subject endpointName \<notin> set (effects (ingestPoster w req))"
    by (rule ingestPoster_no_rate_check)
qed

lemma example_speech_run:
  "text_to_speech example_world speech_request =
     \<lparr>response = \<lparr>status = 200, headers = corsHeaders @ [(''Content-Type'', ''audio/mpeg'')],
                   body = Bytes [73, 68, 51]\<rparr>,
      effects = [RateLimitCheck ''user-1'' ''text-to-speech'',
                 RequestLogWrite ''user-1'' ''text-to-speech'', SpeechApiCall],
      logs = \<lparr>rows = [\<lparr>user_id = ''user-1'', endpoint = ''text-to-speech'',
                        created_at = 1700000000000\<rparr>],
              on_select = Succeeds, on_insert = Succeeds\<rparr>\<rparr>"
  by (simp add: text_to_speech_def tts_admit_def tts_delegate_def example_world_def
      example_auth_def speech_request_def checkRateLimit_def RATE_LIMITS_get_def RATE_LIMITS_def
      select_request_logs_def logRequest_def insert_request_log_def delete_old_request_logs_def
      Math_max_def Let_def)

text \<open>A run that reaches the speech provider, and a run with the window full.\<close>

theorem edge_handler_admission_control_witness:
  "effects (text_to_speech example_world speech_request) =
     [RateLimitCheck ''user-1'' ''text-to-speech'', RequestLogWrite ''user-1'' ''text-to-speech'']
       @ SpeechApiCall # [] \<and>
   RateLimitCheck ''user-1'' ''text-to-speech'' \<in>
     set [RateLimitCheck ''user-1'' ''text-to-speech'', RequestLogWrite ''user-1'' ''text-to-speech''] \<and>
   text_to_speech (example_world\<lparr>request_logs := full_window\<rparr>) speech_request =
     \<lparr>response = rate_limited, effects = [RateLimitCheck ''user-1'' ''text-to-speech''],
      logs = full_window\<rparr>"
proof -
  have a: "checkRateLimit 1700000000000 ''user-1'' ''text-to-speech'' full_window =
      Inr \<lparr>allowed = False, remaining = 0\<rparr>"
    by (simp add: checkRateLimit_def RATE_LIMITS_get_def RATE_LIMITS_def select_request_logs_def
        full_window_def Math_max_def Let_def)
  show ?thesis
    using edge_handler_admission_control [of example_world speech_request
        "[RateLimitCheck ''user-1'' ''text-to-speech'', RequestLogWrite ''user-1'' ''text-to-speech'']"
        SpeechApiCall "[]" "JObj [(''text'', JStr ''Hello''), (''voiceId'', JStr ''voice-1'')]"
        "''user-1''"]
      edge_handler_admission_control [of "example_world\<lparr>request_logs := full_window\<rparr>"
        speech_request "[]" SpeechApiCall "[]"
        "JObj [(''text'', JStr ''Hello''), (''voiceId'', JStr ''voice-1'')]"
        "''user-1''" "\<lparr>allowed = False, remaining = 0\<rparr>"] a example_speech_run
    by (simp add: example_world_def example_auth_def speech_request_def subject_of_def
        tts_credential_def)
qed

text \<open>
  C4, as stated for every handler, fails: \<open>ingestPoster\<close> never consults the rate
  limiter. It uploads and inserts without a rate limit check, whatever the request log
  holds.
\<close>

theorem ingestPoster_without_rate_limiter:
  "effects (ingestPoster (example_world\<lparr>request_logs := full_window\<rparr>) poster_request) =
     [RoleQuery ''user-1'', StorageUpload ''poster-1'', PosterInsert ''poster-1''] \<and>
   status (response (ingestPoster (example_world\<lparr>request_logs := full_window\<rparr>) poster_request))
     = 200"
  by (simp add: example_world_def example_auth_def poster_request_def ingestPoster_def
      ingest_admin_def ingest_store_def queued_def json_response_def Let_def)

subsection \<open>Edge handlers: failures of the request log store\<close>

lemma tts_delegate_response:
  "response (tts_delegate w tx voiceId sofar s) =
   response (tts_delegate (w\<lparr>request_logs := s0\<rparr>) tx voiceId sofar' s')"
  by (simp add: tts_delegate_def split: sum.splits)

lemma tts_admit_store_failure:
  assumes "on_select (request_logs w) \<noteq> Succeeds"
  shows "response (tts_admit w tx voiceId u) =
         response (tts_delegate w tx voiceId [] (request_logs w))"
proof -
  have c: "checkRateLimit (Date_now w) u ''text-to-speech'' (request_logs w) =
      Inr \<lparr>allowed = True, remaining = 999\<rparr>"
    using checkRateLimit_fail_open [OF _ assms, of "''text-to-speech''"]
    by (simp add: RATE_LIMITS_get_def RATE_LIMITS_def)
  obtain s' where l: "logRequest (db_now w) u ''text-to-speech'' (request_logs w) = Inr s'"
    using logRequest_returns by blast
  show ?thesis
    using tts_delegate_response [of w tx voiceId _ s' "request_logs w" "[]" "request_logs w"]
    by (simp add: tts_admit_def c l)
qed

lemma tts_admit_open_window:
  assumes "on_select (request_logs w) = Succeeds" and "rows (request_logs w) = []"
  shows "response (tts_admit w tx voiceId u) =
         response (tts_delegate w tx voiceId [] (request_logs w))"
proof -
  have c: "checkRateLimit (Date_now w) u ''text-to-speech'' (request_logs w) =
      Inr \<lparr>allowed = True, remaining = 20\<rparr>"
    using assms
    by (simp add: checkRateLimit_def RATE_LIMITS_get_def RATE_LIMITS_def select_request_logs_def
        Math_max_def Let_def)
  obtain s' where l: "logRequest (db_now w) u ''text-to-speech'' (request_logs w) = Inr s'"
    using logRequest_returns by blast
  show ?thesis
    using tts_delegate_response [of w tx voiceId _ s' "request_logs w" "[]" "request_logs w"]
    by (simp add: tts_admit_def c l)
qed

lemma text_to_speech_store_failure_not_surfaced:
  assumes "on_select (request_logs w) \<noteq> Succeeds"
  shows "response (text_to_speech w req) =
         response (text_to_speech
           (w\<lparr>request_logs := \<lparr>rows = [], on_select = Succeeds, on_insert = Succeeds\<rparr>\<rparr>) req)"
proof -
  let ?w = "w\<lparr>request_logs := \<lparr>rows = [], on_select = Succeeds, on_insert = Succeeds\<rparr>\<rparr>"
  have "response (tts_admit w tx voiceId u) = response (tts_admit ?w tx voiceId u)"
    for tx voiceId u
    using tts_admit_store_failure [OF assms, of tx voiceId u]
      tts_admit_open_window [of ?w tx voiceId u]
      tts_delegate_response [of w tx voiceId "[]" "request_logs w" "request_logs ?w" "[]"
        "request_logs ?w"]
    by simp
  then show ?thesis
    by (simp add: text_to_speech_def split: sum.splits)
qed

lemma select_ignores_insert:
  "select_request_logs (s\<lparr>on_insert := a\<rparr>) u e ws = select_request_logs s u e ws"
  by (cases "on_select s") (simp_all add: select_request_logs_def)

lemma checkRateLimit_ignores_insert:
  "checkRateLimit now u e (s\<lparr>on_insert := a\<rparr>) = checkRateLimit now u e s"
  by (cases "RATE_LIMITS_get e") (simp_all add: checkRateLimit_def select_ignores_insert)

lemma tts_admit_log_failure:
  "response (tts_admit (w\<lparr>request_logs := (request_logs w)\<lparr>on_insert := a\<rparr>\<rparr>) tx voiceId u) =
   response (tts_admit w tx voiceId u)"
proof -
  let ?w = "w\<lparr>request_logs := (request_logs w)\<lparr>on_insert := a\<rparr>\<rparr>"
  obtain s1 where l1: "logRequest (db_now w) u ''text-to-speech'' (request_logs w) = Inr s1"
    using logRequest_returns by blast
  obtain s2 where l2: "logRequest (db_now w) u ''text-to-speech''
      ((request_logs w)\<lparr>on_insert := a\<rparr>) = Inr s2"
    using logRequest_returns by blast
  have d: "response (tts_delegate ?w tx voiceId sofar s2) =
      response (tts_delegate w tx voiceId sofar s1)" for sofar
    using tts_delegate_response [of w tx voiceId sofar s1
        "(request_logs w)\<lparr>on_insert := a\<rparr>" sofar s2]
    by simp
  show ?thesis
    by (simp add: tts_admit_def Let_def checkRateLimit_ignores_insert l1 l2 d split: sum.splits)
qed

lemma text_to_speech_log_failure_not_surfaced:
  "response (text_to_speech (w\<lparr>request_logs := (request_logs w)\<lparr>on_insert := a\<rparr>\<rparr>) req) =
   response (text_to_speech w req)"
  by (simp add: text_to_speech_def tts_admit_log_failure split: sum.splits)

text \<open>
  C6. When the limiter reaches the store (the endpoint has a policy) and the store throws or
  returns an error, \<open>checkRateLimit\<close> returns \<open>allowed = true\<close>; an endpoint the lookup
  does not find is allowed whatever the store does. \<open>logRequest\<close> always returns, never
  throws. Neither failure shows in the answer of the speech handler: with a store that
  fails the query it answers as with an empty store that works, and its answer does not
  depend on how the insert of the log entry goes.
\<close>

theorem store_failure_fails_open:
  "(RATE_LIMITS_get endpointName = Config limit \<and> on_select supabase \<noteq> Succeeds \<longrightarrow>
      checkRateLimit now userId endpointName supabase = Inr \<lparr>allowed = True, remaining = 999\<rparr>) \<and>
   (RATE_LIMITS_get endpointName = Undefined \<longrightarrow>
      checkRateLimit now userId endpointName supabase = Inr \<lparr>allowed = True, remaining = 999\<rparr>) \<and>
   (\<exists>supabase'. logRequest now userId endpointName supabase = Inr supabase') \<and>
   (on_select (request_logs w) \<noteq> Succeeds \<longrightarrow>
      response (text_to_speech w req) =
      response (text_to_speech
        (w\<lparr>request_logs := \<lparr>rows = [], on_select = Succeeds, on_insert = Succeeds\<rparr>\<rparr>) req)) \<and>
   response (text_to_speech (w\<lparr>request_logs := (request_logs w)\<lparr>on_insert := a\<rparr>\<rparr>) req) =
     response (text_to_speech w req)"
  using checkRateLimit_fail_open [of endpointName limit supabase now userId]
    checkRateLimit_unknown_endpoint [of endpointName now userId supabase]
    logRequest_returns [of now userId endpointName supabase]
    text_to_speech_store_failure_not_surfaced [of w req]
    text_to_speech_log_failure_not_surfaced [where w = w and a = a and req = req]
  by blast

text \<open>The speech endpoint and an endpoint without a policy, on a store that cannot be reached.\<close>

theorem store_failure_fails_open_witness:
  "checkRateLimit 1700000000000 ''user-1'' ''text-to-speech'' unreachable =
     Inr \<lparr>allowed = True, remaining = 999\<rparr> \<and>
   checkRateLimit 1700000000000 ''user-1'' ''ingestPoster'' unreachable =
     Inr \<lparr>allowed = True, remaining = 999\<rparr> \<and>
   logRequest 1700000000000 ''user-1'' ''text-to-speech'' unreachable = Inr unreachable \<and>
   response (text_to_speech (example_world\<lparr>request_logs := unreachable\<rparr>) speech_request) =
     \<lparr>status = 200, headers = corsHeaders @ [(''Content-Type'', ''audio/mpeg'')],
      body = Bytes [73, 68, 51]\<rparr>"
proof -
  have c: "RATE_LIMITS_get ''text-to-speech'' = Config \<lparr>requests = 20, window = 60\<rparr>"
    "RATE_LIMITS_get ''ingestPoster'' = Undefined"
    by (simp_all add: RATE_LIMITS_get_def RATE_LIMITS_def Object_prototype_names_def)
  have l: "logRequest 1700000000000 ''user-1'' ''text-to-speech'' unreachable = Inr unreachable"
    by (simp add: logRequest_def insert_request_log_def unreachable_def)
  have e: "example_world\<lparr>request_logs := unreachable,
      request_logs := \<lparr>rows = [], on_select = Succeeds, on_insert = Succeeds\<rparr>\<rparr> = example_world"
    by (simp add: example_world_def)
  show ?thesis
    using store_failure_fails_open [where endpointName = "''text-to-speech''"
        and limit = "\<lparr>requests = 20, window = 60\<rparr>" and supabase = unreachable
        and now = 1700000000000 and userId = "''user-1''"
        and w = "example_world\<lparr>request_logs := unreachable\<rparr>" and req = speech_request]
      store_failure_fails_open [where endpointName = "''ingestPoster''" and supabase = unreachable
        and now = 1700000000000 and userId = "''user-1''"]
      c l e example_speech_run
    by (simp add: unreachable_def)
qed

subsection \<open>Binary64 rounding\<close>

lemma round_ties_even_bounds:
  "of_int (round_ties_even y) \<le> y + 1 / 2 \<and> y - 1 / 2 \<le> of_int (round_ties_even y)"
proof -
  have f: "of_int \<lfloor>y\<rfloor> \<le> y" "y < of_int \<lfloor>y\<rfloor> + 1" by linarith+
  show ?thesis
  proof (cases "y - of_int \<lfloor>y\<rfloor> < 1 / 2")
    case True
    then have "round_ties_even y = \<lfloor>y\<rfloor>" by (simp add: round_ties_even_def Let_def)
    then show ?thesis using f True by linarith
  next
    case False
    note nlt = False
    show ?thesis
    proof (cases "1 / 2 < y - of_int \<lfloor>y\<rfloor>")
      case True
      then have "round_ties_even y = \<lfloor>y\<rfloor> + 1" using nlt by (simp add: round_ties_even_def Let_def)
      then show ?thesis using f True by simp
    next
      case False
      with nlt have h: "y - of_int \<lfloor>y\<rfloor> = 1 / 2" by simp
      have "round_ties_even y = \<lfloor>y\<rfloor> \<or> round_ties_even y = \<lfloor>y\<rfloor> + 1"
        by (simp add: round_ties_even_def Let_def)
      then show ?thesis using h by auto
    qed
  qed
qed

lemma round_ties_even_nonneg: "0 \<le> y \<Longrightarrow> 0 \<le> round_ties_even y"
  by (auto simp add: round_ties_even_def Let_def)

lemma exponent_bounds:
  assumes "0 < x"
  shows "2 powi exponent x \<le> x \<and> x < 2 powi (exponent x + 1)"
proof -
  obtain p q where pq: "quotient_of x = (p, q)" by (cases "quotient_of x")
  have q: "0 < q" using pq by (rule quotient_of_denom_pos)
  have x: "x = of_int p / of_int q" using pq by (rule quotient_of_div)
  have p: "0 < p" using assms q x by (simp add: zero_less_divide_iff)
  let ?a = "bitlen p" and ?b = "bitlen q"
  have a1: "1 \<le> ?a" using p bitlen_eq_zero_iff [of p] bitlen_nonneg [of p] by linarith
  have b1: "1 \<le> ?b" using q bitlen_eq_zero_iff [of q] bitlen_nonneg [of q] by linarith
  have conv: "\<And>k. 0 \<le> k \<Longrightarrow> (2::rat) powi k = of_int (2 ^ nat k)"
    by (simp add: power_int_nonneg_exp)
  have pl: "(2::rat) powi (?a - 1) \<le> of_int p"
    using bitlen_bounds [OF p] a1 by (simp only: conv of_int_le_iff)
  have pu: "of_int p < (2::rat) powi ?a"
    using bitlen_bounds [OF p] a1 by (simp only: conv of_int_less_iff)
  have ql: "(2::rat) powi (?b - 1) \<le> of_int q"
    using bitlen_bounds [OF q] b1 by (simp only: conv of_int_le_iff)
  have qu: "of_int q < (2::rat) powi ?b"
    using bitlen_bounds [OF q] b1 by (simp only: conv of_int_less_iff)
  have "(2::rat) powi (?a - 1 - ?b) = 2 powi (?a - 1) / 2 powi ?b"
    by (simp add: power_int_diff)
  also have "\<dots> \<le> of_int p / of_int q"
    using pl qu q p by (intro frac_le) simp_all
  finally have lo: "(2::rat) powi (?a - ?b - 1) \<le> x"
    by (simp add: x algebra_simps)
  have "of_int p / of_int q < (2::rat) powi ?a / 2 powi (?b - 1)"
    using pu ql q p by (intro frac_less) simp_all
  also have "\<dots> = 2 powi (?a - (?b - 1))"
    by (simp add: power_int_diff)
  finally have hi: "x < (2::rat) powi (?a - ?b + 1)"
    by (simp add: x algebra_simps)
  show ?thesis
    using lo hi by (auto simp add: exponent_def pq Let_def not_le)
qed

lemma ulp_pos: "0 < ulp x"
  by (simp add: ulp_def)

lemma binary64_error: "\<bar>binary64 x - x\<bar> \<le> ulp x / 2"
proof (cases "x = 0")
  case True
  then show ?thesis using ulp_pos [of 0] by (simp add: binary64_def)
next
  case False
  have u: "0 < ulp x" by (rule ulp_pos)
  let ?n = "of_int (round_ties_even (x / ulp x)) :: rat"
  have "\<bar>?n - x / ulp x\<bar> \<le> 1 / 2"
    using round_ties_even_bounds [of "x / ulp x"] by linarith
  then have "\<bar>?n - x / ulp x\<bar> * ulp x \<le> 1 / 2 * ulp x"
    using u by (intro mult_right_mono) simp_all
  moreover have "\<bar>?n - x / ulp x\<bar> * ulp x = \<bar>?n * ulp x - x\<bar>"
  proof -
    have "\<bar>?n - x / ulp x\<bar> * ulp x = \<bar>(?n - x / ulp x) * ulp x\<bar>"
      using u by (simp add: abs_mult)
    also have "(?n - x / ulp x) * ulp x = ?n * ulp x - x"
      using u by (simp add: left_diff_distrib)
    finally show ?thesis .
  qed
  ultimately show ?thesis using False by (simp add: binary64_def)
qed

lemma binary64_nonneg: "0 \<le> x \<Longrightarrow> 0 \<le> binary64 x"
  using ulp_pos [of x] round_ties_even_nonneg [of "x / ulp x"]
  by (simp add: binary64_def)

lemma ulp_le:
  assumes "0 < x"
  shows "ulp x \<le> x / 2 ^ 52 \<or> ulp x = 1 / 2 ^ 1074"
proof (cases "- 1022 \<le> exponent x")
  case True
  then have "ulp x = 2 powi (exponent x - 52)"
    using assms by (simp add: ulp_def max_def)
  also have "\<dots> = 2 powi exponent x / 2 ^ 52"
    by (simp add: power_int_diff)
  also have "\<dots> \<le> x / 2 ^ 52"
    using exponent_bounds [OF assms] by (simp add: divide_right_mono)
  finally show ?thesis by simp
next
  case False
  then have "ulp x = 2 powi (- 1074)"
    using assms by (simp add: ulp_def max_def)
  then show ?thesis by (simp add: power_int_minus_divide)
qed

lemma binary64_upper:
  assumes "0 \<le> x"
  shows "binary64 x \<le> x + x / 1000000 + 1 / 1000000"
proof (cases "x = 0")
  case True
  then show ?thesis by (simp add: binary64_def)
next
  case False
  then have pos: "0 < x" using assms by simp
  have e: "binary64 x \<le> x + ulp x / 2"
    using binary64_error [of x] by linarith
  from ulp_le [OF pos] show ?thesis
  proof
    assume "ulp x \<le> x / 2 ^ 52"
    then have "ulp x \<le> x / 4503599627370496" by simp
    then show ?thesis using e pos by simp
  next
    assume "ulp x = 1 / 2 ^ 1074"
    moreover have "(1::rat) / 2 ^ 1074 \<le> 1 / 2 ^ 20"
      by (intro divide_left_mono power_increasing) simp_all
    ultimately have "ulp x \<le> 1 / 1048576" by simp
    then show ?thesis using e pos by simp
  qed
qed

lemma alpha_unit_range:
  assumes "0 \<le> m" and "m \<le> 1"
  shows "0 \<le> Math_round (binary64 (binary64 (1 - m) * 255)) \<and>
         Math_round (binary64 (binary64 (1 - m) * 255)) \<le> 255"
proof -
  let ?t = "binary64 (1 - m)"
  let ?s = "binary64 (?t * 255)"
  have t0: "0 \<le> ?t" using assms by (simp add: binary64_nonneg)
  have t1: "?t \<le> (1 - m) + (1 - m) / 1000000 + 1 / 1000000"
    using assms by (intro binary64_upper) simp
  have s0: "0 \<le> ?s" using t0 by (simp add: binary64_nonneg)
  have s1: "?s \<le> ?t * 255 + ?t * 255 / 1000000 + 1 / 1000000"
    using t0 by (intro binary64_upper) simp
  have lo: "0 \<le> ?s + 1 / 2" using s0 by simp
  have t2: "?t \<le> 1000002 / 1000000"
  proof -
    have "(1 - m) / 1000000 \<le> 1 / 1000000" using assms by simp
    then show ?thesis using t1 assms by linarith
  qed
  have "?t * 255 / 1000000 = ?t * (255 / 1000000)" by simp
  then have s2: "?s \<le> ?t * 255 + ?t * (255 / 1000000) + 1 / 1000000" using s1 by simp
  have hi: "?s + 1 / 2 < 256" using s2 t2 by linarith
  from lo have "0 \<le> \<lfloor>?s + 1 / 2\<rfloor>" by simp
  moreover from hi have "\<lfloor>?s + 1 / 2\<rfloor> < 256" by (simp add: floor_less_iff)
  ultimately show ?thesis by (simp add: Math_round_def)
qed

text \<open>The model on numbers whose nearest binary64 number is known.\<close>

lemma binary64_examples:
  "binary64 (1 / 10) = tenth \<and> binary64 tenth = tenth \<and>
   binary64 (1 - tenth) = 8106479329266893 / 9007199254740992 \<and>
   binary64 (9 / 10) = 8106479329266893 / 9007199254740992 \<and>
   binary64 (8106479329266893 / 9007199254740992 * 255) = 459 / 2 \<and>
   binary64 mask_0_8725 = mask_0_8725 \<and>
   binary64 (2 ^ 53 + 1) = 2 ^ 53 \<and> binary64 (2 ^ 53 + 3) = 2 ^ 53 + 4 \<and>
   binary64 (- (2 ^ 53) - 1) = - (2 ^ 53) \<and> binary64 (1 / 3) = 6004799503160661 / 18014398509481984"
  by code_simp

subsection \<open>Background segmentation\<close>

lemma mask_loop_length: "length (mask_loop i ms data) = length data"
  by (induction ms arbitrary: i data) (simp_all add: Let_def)

lemma mask_loop_nth:
  "k < length data \<Longrightarrow>
   mask_loop i ms data ! k =
     (if k mod 4 = 3 \<and> i \<le> k div 4 \<and> k div 4 < i + length ms
      then to_uint8_clamped (Math_round (binary64 (binary64 (1 - ms ! (k div 4 - i)) * 255)))
      else data ! k)"
proof (induction ms arbitrary: i data)
  case Nil
  then show ?case by simp
next
  case (Cons m ms)
  let ?d = "data[i * 4 + 3 := to_uint8_clamped (Math_round (binary64 (binary64 (1 - m) * 255)))]"
  have len: "k < length ?d" using Cons.prems by simp
  show ?case
  proof (cases "k = i * 4 + 3")
    case True
    then have kd: "k div 4 = i" "k mod 4 = 3" by simp_all
    then show ?thesis
      using Cons.IH [OF len, of "i + 1"] Cons.prems True by (simp add: Let_def)
  next
    case False
    have ne: "k mod 4 = 3 \<Longrightarrow> k div 4 \<noteq> i"
    proof
      assume "k mod 4 = 3" "k div 4 = i"
      then have "k = i * 4 + 3" using div_mult_mod_eq [of k 4] by simp
      with False show False by simp
    qed
    show ?thesis
      using Cons.IH [OF len, of "i + 1"] False ne
      by (auto simp add: Let_def nth_Cons' Suc_diff_le less_Suc_eq_le)
  qed
qed

lemma to_uint8_clamped_id: "0 \<le> v \<Longrightarrow> v \<le> 255 \<Longrightarrow> int (to_uint8_clamped v) = v"
  by (simp add: to_uint8_clamped_def)

lemma alpha_named_values:
  "Math_round (binary64 (binary64 (1 - 0) * 255)) = 255"
  "Math_round (binary64 (binary64 (1 - 1) * 255)) = 0"
  "Math_round (binary64 (binary64 (1 - 1 / 2) * 255)) = 128"
  by code_simp+

lemma alpha_tenth:
  "Math_round (binary64 (binary64 (1 - tenth) * 255)) = 230"
  "Math_round ((1 - tenth) * 255) = 229"
  by code_simp+

lemma alpha_mask_0_8725:
  "Math_round (binary64 (binary64 (1 - mask_0_8725) * 255)) = 33"
  "Math_round ((1 - mask_0_8725) * 255) = 32"
  by code_simp+

text \<open>
  Where the difference and the product are binary64 numbers themselves, nothing is rounded
  before \<^verbatim>\<open>Math.round\<close>.
\<close>

lemma alpha_exact:
  "binary64 (1 - m) = 1 - m \<Longrightarrow> binary64 ((1 - m) * 255) = (1 - m) * 255 \<Longrightarrow>
   Math_round (binary64 (binary64 (1 - m) * 255)) = Math_round ((1 - m) * 255)"
  by simp

text \<open>
  C8, in the arithmetic of the code. For every pixel \<open>i\<close> of the mask, the alpha byte of the
  output is \<open>round ((1 - maskValue) * 255)\<close> with the difference and the product each
  rounded to the nearest binary64 number, stored clamped, which for a mask value between 0
  and 1 is the rounded value itself; the colour bytes are as they were. Mask values 0, 1 and
  0.5 give alpha 255, 0 and 128.
\<close>

theorem removeBackground_alpha_binary64:
  "removeBackground (Some maskData # segments) data = Inr (mask_loop 0 maskData data) \<and>
   length (mask_loop 0 maskData data) = length data \<and>
   (i < length maskData \<and> i * 4 + 3 < length data \<longrightarrow>
      mask_loop 0 maskData data ! (i * 4 + 3) =
        to_uint8_clamped (Math_round (binary64 (binary64 (1 - maskData ! i) * 255)))) \<and>
   (i < length maskData \<and> i * 4 + 3 < length data \<and> 0 \<le> maskData ! i \<and> maskData ! i \<le> 1 \<longrightarrow>
      int (mask_loop 0 maskData data ! (i * 4 + 3)) =
        Math_round (binary64 (binary64 (1 - maskData ! i) * 255))) \<and>
   (k < length data \<and> k mod 4 \<noteq> 3 \<longrightarrow> mask_loop 0 maskData data ! k = data ! k) \<and>
   removeBackground [Some [0, 1, 1 / 2]] [10, 20, 30, 7, 40, 50, 60, 7, 70, 80, 90, 7] =
     Inr [10, 20, 30, 255, 40, 50, 60, 0, 70, 80, 90, 128]"
proof (intro conjI impI)
  show "removeBackground (Some maskData # segments) data = Inr (mask_loop 0 maskData data)"
    by (simp add: removeBackground_def)
next
  show "length (mask_loop 0 maskData data) = length data"
    by (rule mask_loop_length)
next
  assume "i < length maskData \<and> i * 4 + 3 < length data"
  then show "mask_loop 0 maskData data ! (i * 4 + 3) =
        to_uint8_clamped (Math_round (binary64 (binary64 (1 - maskData ! i) * 255)))"
    by (simp add: mask_loop_nth)
next
  assume a: "i < length maskData \<and> i * 4 + 3 < length data \<and> 0 \<le> maskData ! i \<and> maskData ! i \<le> 1"
  then have "mask_loop 0 maskData data ! (i * 4 + 3) =
        to_uint8_clamped (Math_round (binary64 (binary64 (1 - maskData ! i) * 255)))"
    by (simp add: mask_loop_nth)
  then show "int (mask_loop 0 maskData data ! (i * 4 + 3)) =
        Math_round (binary64 (binary64 (1 - maskData ! i) * 255))"
    using a alpha_unit_range [of "maskData ! i"] by (simp add: to_uint8_clamped_id)
next
  assume "k < length data \<and> k mod 4 \<noteq> 3"
  then show "mask_loop 0 maskData data ! k = data ! k"
    by (simp add: mask_loop_nth)
next
  show "removeBackground [Some [0, 1, 1 / 2]] [10, 20, 30, 7, 40, 50, 60, 7, 70, 80, 90, 7] =
     Inr [10, 20, 30, 255, 40, 50, 60, 0, 70, 80, 90, 128]"
    using alpha_named_values by (simp add: removeBackground_def to_uint8_clamped_def)
qed

text \<open>The third pixel of a mask with the values 0, 1 and 0.5.\<close>

theorem removeBackground_alpha_binary64_witness:
  "int (mask_loop 0 [0, 1, 1 / 2] [10, 20, 30, 7, 40, 50, 60, 7, 70, 80, 90, 7] ! (2 * 4 + 3)) =
     Math_round (binary64 (binary64 (1 - [0, 1, 1 / 2] ! 2) * 255)) \<and>
   Math_round (binary64 (binary64 (1 - [0, 1, 1 / 2 :: rat] ! 2) * 255)) = 128 \<and>
   mask_loop 0 [0, 1, 1 / 2] [10, 20, 30, 7, 40, 50, 60, 7, 70, 80, 90, 7] ! 9 = 80"
  using removeBackground_alpha_binary64 [of "[0, 1, 1 / 2]" "[]"
      "[10, 20, 30, 7, 40, 50, 60, 7, 70, 80, 90, 7]" 2 9] alpha_named_values(3)
  by simp

text \<open>
  C8, with the formula evaluated exactly, fails. The mask value \<^verbatim>\<open>0.1\<close> is the binary64
  number nearest to one tenth, a little above it. The code computes \<^verbatim>\<open>1 - 0.1\<close> as the
  binary64 number nearest to nine tenths, whose product with 255 rounds to 229.5, and
  stores alpha 230; \<open>(1 - maskValue) * 255\<close> itself is below 229.5, and its nearest
  integer is 229.
\<close>

theorem removeBackground_alpha_not_exact:
  "binary64 (1 / 10) = tenth \<and>
   0 \<le> tenth \<and> tenth \<le> 1 \<and>
   removeBackground [Some [tenth]] [10, 20, 30, 7] = Inr [10, 20, 30, 230] \<and>
   Math_round ((1 - tenth) * 255) = 229"
proof -
  have "binary64 (1 / 10) = tenth" by code_simp
  moreover have "0 \<le> tenth" "tenth \<le> 1" by (simp_all add: tenth_def)
  moreover have "removeBackground [Some [tenth]] [10, 20, 30, 7] = Inr [10, 20, 30, 230]"
    using alpha_tenth(1) by (simp add: removeBackground_def to_uint8_clamped_def)
  moreover have "Math_round ((1 - tenth) * 255) = 229" by (rule alpha_tenth(2))
  ultimately show ?thesis by simp
qed

subsection \<open>Region inpainting\<close>

lemma foldl_nested:
  "foldl (\<lambda>a j. foldl (\<lambda>a i. f a (g i j)) a xs) a ys =
   foldl f a (concat (map (\<lambda>j. map (\<lambda>i. g i j) xs) ys))"
  by (induction ys arbitrary: a) (simp_all add: foldl_map)

lemma surrounding_window:
  "surrounding imageData x y w h px py =
   foldl (\<lambda>acc (sx, sy). sample imageData x y w h sx sy acc) (0, 0, 0, 0) (window px py)"
  unfolding surrounding_def window_def margin_def
  using foldl_nested [of "\<lambda>acc (sx, sy). sample imageData x y w h sx sy acc"
      "\<lambda>dx dy. (px + dx, py + dy)" "[- 5..5]" "(0, 0, 0, 0)" "[- 5..5]"]
  by simp

lemma sample_fold:
  "foldl (\<lambda>acc (sx, sy). sample imageData x y w h sx sy acc) (r, g, b, n) ps =
   (r + channel_sum imageData (filter (eligible imageData x y w h) ps) 0,
    g + channel_sum imageData (filter (eligible imageData x y w h) ps) 1,
    b + channel_sum imageData (filter (eligible imageData x y w h) ps) 2,
    n + length (filter (eligible imageData x y w h) ps))"
proof (induction ps arbitrary: r g b n)
  case Nil
  then show ?case by (simp add: channel_sum_def)
next
  case (Cons p ps)
  obtain sx sy where p: "p = (sx, sy)" by (cases p)
  show ?case
  proof (cases "eligible imageData x y w h p")
    case True
    then have "sample imageData x y w h sx sy (r, g, b, n) =
      (r + img_data imageData ! pixel_index imageData sx sy,
       g + img_data imageData ! (pixel_index imageData sx sy + 1),
       b + img_data imageData ! (pixel_index imageData sx sy + 2), n + 1)"
      unfolding p eligible_def sample_def by (auto simp: Let_def)
    then show ?thesis
      using True Cons.IH by (simp add: p channel_sum_def)
  next
    case False
    then have "sample imageData x y w h sx sy (r, g, b, n) = (r, g, b, n)"
      unfolding p eligible_def sample_def by auto
    then show ?thesis
      using False Cons.IH by (simp add: p)
  qed
qed

lemma neighbours_eligible:
  "neighbours imageData [R] px py =
   filter (eligible imageData (region_x R) (region_y R) (region_width R) (region_height R))
     (window px py)"
  unfolding neighbours_def
  by (rule filter_cong) (auto simp: eligible_def in_region_def)

lemma surrounding_sums:
  "surrounding imageData (region_x R) (region_y R) (region_width R) (region_height R) px py =
   (channel_sum imageData (neighbours imageData [R] px py) 0,
    channel_sum imageData (neighbours imageData [R] px py) 1,
    channel_sum imageData (neighbours imageData [R] px py) 2,
    length (neighbours imageData [R] px py))"
  by (simp add: surrounding_window sample_fold neighbours_eligible)

lemma pixel_number_bound:
  fixes W H sx sy :: int
  assumes "0 \<le> sx" "sx < W" "0 \<le> sy" "sy < H"
  shows "0 \<le> sy * W + sx \<and> sy * W + sx < W * H"
proof
  show "0 \<le> sy * W + sx" using assms by simp
  have "sy + 1 \<le> H" using assms by simp
  then have "(sy + 1) * W \<le> H * W"
    using assms by (intro mult_right_mono) auto
  then show "sy * W + sx < W * H"
    using assms by (simp add: algebra_simps)
qed

lemma pixel_number_inj:
  fixes W sx sy qx qy :: int
  assumes "0 \<le> sx" "sx < W" "0 \<le> qx" "qx < W" "sy * W + sx = qy * W + qx"
  shows "sx = qx \<and> sy = qy"
proof -
  have W: "0 < W" using assms by linarith
  have "sy = qy"
  proof (rule ccontr)
    assume ne: "sy \<noteq> qy"
    then consider "sy + 1 \<le> qy" | "qy + 1 \<le> sy" by linarith
    then show False
    proof cases
      case 1
      then have "(sy + 1) * W \<le> qy * W" using W by (intro mult_right_mono) auto
      then show False using assms by (simp add: algebra_simps)
    next
      case 2
      then have "(qy + 1) * W \<le> sy * W" using W by (intro mult_right_mono) auto
      then show False using assms by (simp add: algebra_simps)
    qed
  qed
  then show ?thesis using assms by simp
qed

lemma pixel_index_in_data:
  assumes "wf_image imageData" "0 \<le> sx" "sx < img_width imageData" "0 \<le> sy"
    "sy < img_height imageData" "c < 4"
  shows "pixel_index imageData sx sy + c < length (img_data imageData)"
proof -
  let ?n = "sy * img_width imageData + sx"
  from pixel_number_bound [OF assms(2-5)]
  have n: "0 \<le> ?n" "?n < img_width imageData * img_height imageData" by simp_all
  have len: "int (length (img_data imageData)) = 4 * (img_width imageData * img_height imageData)"
    using assms(1) by (simp add: wf_image_def)
  have "int (pixel_index imageData sx sy + c) = ?n * 4 + int c"
    using n by (simp add: pixel_index_def)
  also have "\<dots> < 4 * (img_width imageData * img_height imageData)"
    using n assms(6) by simp
  finally show ?thesis using len by simp
qed

lemma pixel_index_inj:
  assumes "0 \<le> sx" "sx < img_width imageData" "0 \<le> sy"
    and "0 \<le> qx" "qx < img_width imageData" "0 \<le> qy"
    and "c < 4" "d < 4"
    and "pixel_index imageData sx sy + c = pixel_index imageData qx qy + d"
  shows "sx = qx \<and> sy = qy \<and> c = d"
proof -
  let ?W = "img_width imageData"
  have a: "0 \<le> sy * ?W + sx" and b: "0 \<le> qy * ?W + qx"
    using assms by simp_all
  have "int (pixel_index imageData sx sy + c) = int (pixel_index imageData qx qy + d)"
    using assms(9) by simp
  then have e: "(sy * ?W + sx) * 4 + int c = (qy * ?W + qx) * 4 + int d"
    using a b by (simp add: pixel_index_def)
  then have "sy * ?W + sx = qy * ?W + qx \<and> c = d"
    using assms(7,8) by presburger
  then show ?thesis
    using pixel_number_inj [OF assms(1,2,4,5)] by blast
qed

lemma nth_update4:
  "i + 3 < length xs \<Longrightarrow>
   xs[i := a, i + 1 := b, i + 2 := c, i + 3 := d] ! k =
     (if k = i then a else if k = i + 1 then b else if k = i + 2 then c
      else if k = i + 3 then d else xs ! k)"
  by (simp add: nth_list_update)

lemma inpaint_pixel_dims:
  "img_width (inpaint_pixel x y w h G px py) = img_width G \<and>
   img_height (inpaint_pixel x y w h G px py) = img_height G \<and>
   length (img_data (inpaint_pixel x y w h G px py)) = length (img_data G)"
  by (simp add: inpaint_pixel_def Let_def split: prod.splits)

lemma surrounding_agree:
  assumes dims: "img_width a = img_width b" "img_height a = img_height b"
    and bytes: "\<And>sx sy c. eligible b x y w h (sx, sy) \<Longrightarrow> c < 4 \<Longrightarrow>
      img_data a ! (pixel_index b sx sy + c) = img_data b ! (pixel_index b sx sy + c)"
  shows "surrounding a x y w h px py = surrounding b x y w h px py"
proof -
  have idx: "\<And>sx sy. pixel_index a sx sy = pixel_index b sx sy"
    using dims by (simp add: pixel_index_def)
  have "sample a x y w h sx sy acc = sample b x y w h sx sy acc" for sx sy acc
  proof (cases "eligible b x y w h (sx, sy)")
    case True
    from bytes [OF True, of 0] bytes [OF True, of 1] bytes [OF True, of 2]
    show ?thesis
      using dims idx by (simp add: sample_def Let_def split: prod.splits)
  next
    case False
    then show ?thesis
      using dims by (auto simp add: sample_def eligible_def)
  qed
  then have "sample a x y w h = sample b x y w h" by (intro ext)
  then show ?thesis by (simp add: surrounding_def)
qed

lemma inpaint_pixel_step:
  assumes wf0: "wf_image img0"
    and dims: "img_width G = img_width img0" "img_height G = img_height img0"
      "length (img_data G) = length (img_data img0)"
    and sur: "surrounding G x y w h px py = surrounding img0 x y w h px py"
    and q: "0 \<le> qx" "qx < img_width img0" "0 \<le> qy" "qy < img_height img0" "c < 4"
  shows "img_data (inpaint_pixel x y w h G px py) ! (pixel_index img0 qx qy + c) =
     (if (qx, qy) = (px, py) \<and> 0 < sample_count img0 x y w h px py
      then fill_bytes img0 x y w h px py ! c
      else img_data G ! (pixel_index img0 qx qy + c))"
proof (cases "px < 0 \<or> py < 0 \<or> px \<ge> img_width img0 \<or> py \<ge> img_height img0")
  case True
  then have "inpaint_pixel x y w h G px py = G"
    using dims by (simp add: inpaint_pixel_def)
  moreover have "(qx, qy) \<noteq> (px, py)" using True q by auto
  ultimately show ?thesis by auto
next
  case False
  then have p: "0 \<le> px" "px < img_width img0" "0 \<le> py" "py < img_height img0" by simp_all
  obtain r g b n where s0: "surrounding img0 x y w h px py = (r, g, b, n)"
    by (cases "surrounding img0 x y w h px py")
  have idx: "pixel_index G px py = pixel_index img0 px py"
    using dims by (simp add: pixel_index_def)
  show ?thesis
  proof (cases "0 < n")
    case False
    then have "inpaint_pixel x y w h G px py = G"
      using sur s0 by (simp add: inpaint_pixel_def)
    then show ?thesis using False s0 by (simp add: sample_count_def)
  next
    case True
    let ?i = "pixel_index img0 px py"
    let ?new = "(img_data G)
        [?i := to_uint8_clamped (Math_round (of_nat r / of_nat n)),
         ?i + 1 := to_uint8_clamped (Math_round (of_nat g / of_nat n)),
         ?i + 2 := to_uint8_clamped (Math_round (of_nat b / of_nat n)),
         ?i + 3 := 255]"
    have res: "img_data (inpaint_pixel x y w h G px py) = ?new"
      using True sur s0 p dims idx by (simp add: inpaint_pixel_def Let_def)
    have inr: "?i + 3 < length (img_data G)"
      using pixel_index_in_data [OF wf0 p, of 3] dims by simp
    have fb: "fill_bytes img0 x y w h px py =
        [to_uint8_clamped (Math_round (of_nat r / of_nat n)),
         to_uint8_clamped (Math_round (of_nat g / of_nat n)),
         to_uint8_clamped (Math_round (of_nat b / of_nat n)), 255]"
      using s0 by (simp add: fill_bytes_def)
    have sc: "sample_count img0 x y w h px py = n"
      using s0 by (simp add: sample_count_def)
    show ?thesis
    proof (cases "(qx, qy) = (px, py)")
      case True
      then have k: "pixel_index img0 qx qy + c = ?i + c" by simp
      have v: "?new ! (?i + c) = fill_bytes img0 x y w h px py ! c"
      proof -
        from q(5) consider "c = 0" | "c = 1" | "c = 2" | "c = 3" by linarith
        then show ?thesis
        proof cases
          case 1
          then show ?thesis by (subst nth_update4 [OF inr]) (simp add: fb)
        next
          case 2
          then show ?thesis by (subst nth_update4 [OF inr]) (simp add: fb)
        next
          case 3
          then show ?thesis by (subst nth_update4 [OF inr]) (simp add: fb)
        next
          case 4
          then show ?thesis by (subst nth_update4 [OF inr]) (simp add: fb)
        qed
      qed
      show ?thesis
        unfolding res k using v True sc \<open>0 < n\<close> by simp
    next
      case False
      have ne: "pixel_index img0 qx qy + c \<noteq> ?i + d" if "d < 4" for d
        using pixel_index_inj [OF q(1-3) p(1-3) q(5) that] False by auto
      from ne [of 0] ne [of 1] ne [of 2] ne [of 3]
      have "?new ! (pixel_index img0 qx qy + c) = img_data G ! (pixel_index img0 qx qy + c)"
        by (subst nth_update4 [OF inr]) simp
      then show ?thesis using False by (auto simp add: res)
    qed
  qed
qed

lemma inpaint_fold:
  assumes wf0: "wf_image img0"
    and box: "\<And>px py. (px, py) \<in> set ps \<Longrightarrow> x \<le> px \<and> px < x + w \<and> y \<le> py \<and> py < y + h"
  shows "img_width (foldl (\<lambda>img (px, py). inpaint_pixel x y w h img px py) img0 ps) = img_width img0 \<and>
    img_height (foldl (\<lambda>img (px, py). inpaint_pixel x y w h img px py) img0 ps) = img_height img0 \<and>
    length (img_data (foldl (\<lambda>img (px, py). inpaint_pixel x y w h img px py) img0 ps)) =
      length (img_data img0) \<and>
    (\<forall>qx qy c. 0 \<le> qx \<longrightarrow> qx < img_width img0 \<longrightarrow> 0 \<le> qy \<longrightarrow> qy < img_height img0 \<longrightarrow> c < 4 \<longrightarrow>
       img_data (foldl (\<lambda>img (px, py). inpaint_pixel x y w h img px py) img0 ps)
         ! (pixel_index img0 qx qy + c) =
       (if (qx, qy) \<in> set ps \<and> 0 < sample_count img0 x y w h qx qy
        then fill_bytes img0 x y w h qx qy ! c
        else img_data img0 ! (pixel_index img0 qx qy + c)))"
  using box
proof (induction ps rule: rev_induct)
  case Nil
  then show ?case by simp
next
  case (snoc p ps)
  obtain px py where p: "p = (px, py)" by (cases p)
  let ?G = "foldl (\<lambda>img (px, py). inpaint_pixel x y w h img px py) img0 ps"
  have inbox: "\<And>px py. (px, py) \<in> set ps \<Longrightarrow> x \<le> px \<and> px < x + w \<and> y \<le> py \<and> py < y + h"
    using snoc.prems by auto
  note IH = snoc.IH [OF inbox]
  from IH have dims: "img_width ?G = img_width img0" "img_height ?G = img_height img0"
      "length (img_data ?G) = length (img_data img0)"
    by simp_all
  from IH have old: "\<And>qx qy c. 0 \<le> qx \<Longrightarrow> qx < img_width img0 \<Longrightarrow> 0 \<le> qy \<Longrightarrow>
      qy < img_height img0 \<Longrightarrow> c < 4 \<Longrightarrow>
      img_data ?G ! (pixel_index img0 qx qy + c) =
       (if (qx, qy) \<in> set ps \<and> 0 < sample_count img0 x y w h qx qy
        then fill_bytes img0 x y w h qx qy ! c
        else img_data img0 ! (pixel_index img0 qx qy + c))"
    by blast
  have sur: "surrounding ?G x y w h px py = surrounding img0 x y w h px py"
  proof (rule surrounding_agree [OF dims(1,2)])
    fix sx sy c
    assume e: "eligible img0 x y w h (sx, sy)" and c: "c < (4::nat)"
    then have "(sx, sy) \<notin> set ps"
      using inbox [of sx sy] by (auto simp: eligible_def)
    then show "img_data ?G ! (pixel_index img0 sx sy + c) =
        img_data img0 ! (pixel_index img0 sx sy + c)"
      using old [of sx sy c] e c by (simp add: eligible_def)
  qed
  have fold: "foldl (\<lambda>img (px, py). inpaint_pixel x y w h img px py) img0 (ps @ [p]) =
      inpaint_pixel x y w h ?G px py"
    by (simp add: p)
  have step: "\<And>qx qy c. 0 \<le> qx \<Longrightarrow> qx < img_width img0 \<Longrightarrow> 0 \<le> qy \<Longrightarrow>
      qy < img_height img0 \<Longrightarrow> c < 4 \<Longrightarrow>
      img_data (inpaint_pixel x y w h ?G px py) ! (pixel_index img0 qx qy + c) =
       (if (qx, qy) = (px, py) \<and> 0 < sample_count img0 x y w h px py
        then fill_bytes img0 x y w h px py ! c
        else img_data ?G ! (pixel_index img0 qx qy + c))"
    by (rule inpaint_pixel_step [OF wf0 dims sur])
  show ?case
    unfolding fold
  proof (intro conjI allI impI)
    show "img_width (inpaint_pixel x y w h ?G px py) = img_width img0"
      using inpaint_pixel_dims [of x y w h ?G px py] dims by simp
    show "img_height (inpaint_pixel x y w h ?G px py) = img_height img0"
      using inpaint_pixel_dims [of x y w h ?G px py] dims by simp
    show "length (img_data (inpaint_pixel x y w h ?G px py)) = length (img_data img0)"
      using inpaint_pixel_dims [of x y w h ?G px py] dims by simp
  next
    fix qx qy c
    assume q: "0 \<le> qx" "qx < img_width img0" "0 \<le> qy" "qy < img_height img0" "c < (4::nat)"
    show "img_data (inpaint_pixel x y w h ?G px py) ! (pixel_index img0 qx qy + c) =
       (if (qx, qy) \<in> set (ps @ [p]) \<and> 0 < sample_count img0 x y w h qx qy
        then fill_bytes img0 x y w h qx qy ! c
        else img_data img0 ! (pixel_index img0 qx qy + c))"
      using step [OF q] old [OF q] by (auto simp: p)
  qed
qed

lemma inpaintRegion_fold:
  "inpaintRegion imageData x y w h =
   foldl (\<lambda>img (px, py). inpaint_pixel x y w h img px py) imageData (region_pixels x y w h)"
  unfolding inpaintRegion_def region_pixels_def
  using foldl_nested [of "\<lambda>img (px, py). inpaint_pixel x y w h img px py" "\<lambda>px py. (px, py)"
      "[x..x + w - 1]" imageData "[y..y + h - 1]"]
  by simp

lemma set_region_pixels:
  "(px, py) \<in> set (region_pixels x y w h) \<longleftrightarrow> x \<le> px \<and> px < x + w \<and> y \<le> py \<and> py < y + h"
  by (force simp: region_pixels_def)

lemma inpaintRegion_bytes:
  assumes wf0: "wf_image imageData"
    and q: "0 \<le> px" "px < img_width imageData" "0 \<le> py" "py < img_height imageData" "c < 4"
  shows "img_data (inpaintRegion imageData x y w h) ! (pixel_index imageData px py + c) =
       (if (x \<le> px \<and> px < x + w \<and> y \<le> py \<and> py < y + h) \<and>
           0 < sample_count imageData x y w h px py
        then fill_bytes imageData x y w h px py ! c
        else img_data imageData ! (pixel_index imageData px py + c))"
  using inpaint_fold [OF wf0, of "region_pixels x y w h" x w y h] q
  by (simp add: inpaintRegion_fold set_region_pixels)

lemma inpaintRegion_dims:
  assumes wf0: "wf_image imageData"
  shows "img_width (inpaintRegion imageData x y w h) = img_width imageData \<and>
    img_height (inpaintRegion imageData x y w h) = img_height imageData \<and>
    length (img_data (inpaintRegion imageData x y w h)) = length (img_data imageData)"
  using inpaint_fold [OF wf0, of "region_pixels x y w h" x w y h]
  by (simp add: inpaintRegion_fold set_region_pixels)

lemma neighbours_in_image:
  "(sx, sy) \<in> set (neighbours imageData regions px py) \<Longrightarrow>
   0 \<le> sx \<and> sx < img_width imageData \<and> 0 \<le> sy \<and> sy < img_height imageData"
  by (auto simp: neighbours_def)

lemma channel_sum_bound:
  assumes wf0: "wf_image imageData"
    and inside: "\<And>sx sy. (sx, sy) \<in> set ps \<Longrightarrow>
      0 \<le> sx \<and> sx < img_width imageData \<and> 0 \<le> sy \<and> sy < img_height imageData"
    and c: "c < 4"
  shows "channel_sum imageData ps c \<le> 255 * length ps"
  using inside
proof (induction ps)
  case Nil
  then show ?case by (simp add: channel_sum_def)
next
  case (Cons p ps)
  obtain sx sy where p: "p = (sx, sy)" by (cases p)
  have inb: "0 \<le> sx \<and> sx < img_width imageData \<and> 0 \<le> sy \<and> sy < img_height imageData"
    using Cons.prems [of sx sy] by (simp add: p)
  then have "pixel_index imageData sx sy + c < length (img_data imageData)"
    using pixel_index_in_data [OF wf0 _ _ _ _ c] by blast
  moreover have "list_all (\<lambda>v. v \<le> 255) (img_data imageData)"
    using wf0 by (simp add: wf_image_def)
  ultimately have byte: "img_data imageData ! (pixel_index imageData sx sy + c) \<le> 255"
    by (simp add: list_all_length)
  have "channel_sum imageData ps c \<le> 255 * length ps"
    using Cons.IH Cons.prems by auto
  then show ?case
    using byte by (simp add: channel_sum_def p)
qed

lemma Math_round_average:
  assumes "s \<le> 255 * n" and "0 < n"
  shows "to_uint8_clamped (Math_round (of_nat s / of_nat n)) =
         nat (Math_round (of_nat s / of_nat n))"
proof -
  let ?q = "rat_of_nat s / rat_of_nat n"
  have "rat_of_nat s \<le> rat_of_nat (255 * n)"
    using assms(1) by (simp only: of_nat_le_iff)
  then have "rat_of_nat s \<le> 255 * rat_of_nat n" by simp
  then have hi: "?q \<le> 255"
    using assms(2) by (simp add: pos_divide_le_eq)
  have lo: "0 \<le> ?q" by simp
  from hi have "?q + 1 / 2 < 256" by simp
  then have "\<lfloor>?q + 1 / 2\<rfloor> < 256" by (simp add: floor_less_iff)
  moreover from lo have "0 \<le> \<lfloor>?q + 1 / 2\<rfloor>" by simp
  ultimately show ?thesis
    by (simp add: Math_round_def to_uint8_clamped_def)
qed

lemma sample_count_neighbours:
  "sample_count imageData (region_x R) (region_y R) (region_width R) (region_height R) px py =
   length (neighbours imageData [R] px py)"
  by (simp add: sample_count_def surrounding_sums)

lemma fill_bytes_average:
  assumes wf0: "wf_image imageData" and ne: "neighbours imageData [R] px py \<noteq> []"
  shows "fill_bytes imageData (region_x R) (region_y R) (region_width R) (region_height R) px py =
         average_fill imageData [R] px py"
proof -
  let ?ps = "neighbours imageData [R] px py"
  have n: "0 < length ?ps" using ne by simp
  have b: "channel_sum imageData ?ps c \<le> 255 * length ?ps" if "c < 4" for c
    by (rule channel_sum_bound [OF wf0 _ that]) (rule neighbours_in_image)
  show ?thesis
    using Math_round_average [OF b [of 0] n] Math_round_average [OF b [of 1] n]
      Math_round_average [OF b [of 2] n]
    by (simp add: fill_bytes_def surrounding_sums average_fill_def Let_def)
qed

lemma inpaint_pixel_wf:
  assumes "wf_image G"
  shows "wf_image (inpaint_pixel x y w h G px py)"
proof -
  have upd: "\<And>xs i v. list_all (\<lambda>v. v \<le> (255::nat)) xs \<Longrightarrow> v \<le> 255 \<Longrightarrow>
      list_all (\<lambda>v. v \<le> 255) (xs[i := v])"
    by (metis (mono_tags, lifting) insertE list_all_iff set_update_subset_insert subsetD)
  have cl: "\<And>v. to_uint8_clamped v \<le> 255"
    by (simp add: to_uint8_clamped_def)
  show ?thesis
    using assms by (auto simp: wf_image_def inpaint_pixel_def Let_def upd cl split: prod.splits)
qed

lemma inpaintRegion_wf:
  assumes "wf_image imageData"
  shows "wf_image (inpaintRegion imageData x y w h)"
proof -
  have "wf_image (foldl (\<lambda>img (px, py). inpaint_pixel x y w h img px py) imageData ps)" for ps
    using assms
    by (induction ps arbitrary: imageData) (auto simp: inpaint_pixel_wf)
  then show ?thesis by (simp add: inpaintRegion_fold)
qed

lemma handleRemoveText_single:
  "handleRemoveText (Some imageData) [R] =
   Some (inpaintRegion imageData (region_x R) (region_y R) (region_width R) (region_height R))"
  by (simp add: handleRemoveText_def)

lemma handleRemoveText_next:
  assumes "handleRemoveText (Some imageData) regions = Some working"
  shows "handleRemoveText (Some imageData) (regions @ [R]) =
   Some (inpaintRegion working (region_x R) (region_y R) (region_width R) (region_height R))"
  using assms by (auto simp: handleRemoveText_def split: if_splits)

text \<open>
  C7, as the code has it. One call of \<open>inpaintRegion\<close> on a region replaces every pixel
  of the image that lies in the region's bounding box and has, within the window of radius
  5 around it, at least one pixel inside the image and outside that region, by the rounded
  per-channel average of those pixels as they were before the call, with alpha 255; every
  other pixel keeps its four bytes, also a pixel of the box without such a neighbour. The
  image stays well formed. \<open>handleRemoveText\<close> applies the call region by region, each on
  the result of the one before.
\<close>

theorem inpaintRegion_average_outside_region:
  "(wf_image imageData \<and> 0 \<le> px \<and> px < img_width imageData \<and> 0 \<le> py \<and>
    py < img_height imageData \<and> c < 4 \<longrightarrow>
      img_data (inpaintRegion imageData (region_x R) (region_y R) (region_width R)
                  (region_height R)) ! (pixel_index imageData px py + c) =
        (if in_region R px py \<and> neighbours imageData [R] px py \<noteq> []
         then average_fill imageData [R] px py ! c
         else img_data imageData ! (pixel_index imageData px py + c))) \<and>
   (wf_image imageData \<longrightarrow>
      wf_image (inpaintRegion imageData (region_x R) (region_y R) (region_width R)
                  (region_height R)) \<and>
      img_width (inpaintRegion imageData (region_x R) (region_y R) (region_width R)
                  (region_height R)) = img_width imageData \<and>
      img_height (inpaintRegion imageData (region_x R) (region_y R) (region_width R)
                  (region_height R)) = img_height imageData) \<and>
   handleRemoveText (Some imageData) [R] =
     Some (inpaintRegion imageData (region_x R) (region_y R) (region_width R) (region_height R)) \<and>
   (handleRemoveText (Some imageData) regions = Some working \<longrightarrow>
      handleRemoveText (Some imageData) (regions @ [R]) =
        Some (inpaintRegion working (region_x R) (region_y R) (region_width R) (region_height R)))"
proof (intro conjI impI)
  assume a: "wf_image imageData \<and> 0 \<le> px \<and> px < img_width imageData \<and> 0 \<le> py \<and>
    py < img_height imageData \<and> c < 4"
  then have wf0: "wf_image imageData" and q: "0 \<le> px" "px < img_width imageData" "0 \<le> py"
      "py < img_height imageData" "c < 4"
    by simp_all
  show "img_data (inpaintRegion imageData (region_x R) (region_y R) (region_width R)
                  (region_height R)) ! (pixel_index imageData px py + c) =
        (if in_region R px py \<and> neighbours imageData [R] px py \<noteq> []
         then average_fill imageData [R] px py ! c
         else img_data imageData ! (pixel_index imageData px py + c))"
  proof (cases "neighbours imageData [R] px py = []")
    case True
    then show ?thesis
      using inpaintRegion_bytes [OF wf0 q] by (simp add: sample_count_neighbours)
  next
    case False
    then show ?thesis
      using inpaintRegion_bytes [OF wf0 q] fill_bytes_average [OF wf0 False]
      by (simp add: sample_count_neighbours in_region_def)
  qed
next
  assume "wf_image imageData"
  then show "wf_image (inpaintRegion imageData (region_x R) (region_y R) (region_width R)
                  (region_height R))"
    by (rule inpaintRegion_wf)
next
  assume "wf_image imageData"
  then show "img_width (inpaintRegion imageData (region_x R) (region_y R) (region_width R)
                  (region_height R)) = img_width imageData"
    using inpaintRegion_dims by blast
next
  assume "wf_image imageData"
  then show "img_height (inpaintRegion imageData (region_x R) (region_y R) (region_width R)
                  (region_height R)) = img_height imageData"
    using inpaintRegion_dims by blast
next
  show "handleRemoveText (Some imageData) [R] =
     Some (inpaintRegion imageData (region_x R) (region_y R) (region_width R) (region_height R))"
    by (rule handleRemoveText_single)
next
  assume "handleRemoveText (Some imageData) regions = Some working"
  then show "handleRemoveText (Some imageData) (regions @ [R]) =
        Some (inpaintRegion working (region_x R) (region_y R) (region_width R) (region_height R))"
    by (rule handleRemoveText_next)
qed

text \<open>The first of three pixels in a row, filled from the other two.\<close>

theorem inpaintRegion_average_outside_region_witness:
  "img_data (inpaintRegion three_pixels 0 0 1 1) ! 0 = 150 \<and>
   img_data (inpaintRegion three_pixels 0 0 1 1) ! 8 = 200 \<and>
   wf_image (inpaintRegion three_pixels 0 0 1 1) \<and>
   handleRemoveText (Some three_pixels) ([first_word] @ [second_word]) =
     Some (inpaintRegion (inpaintRegion three_pixels 0 0 1 1) 1 0 1 1)"
proof -
  have wf0: "wf_image three_pixels"
    by (simp add: wf_image_def three_pixels_def)
  have n: "neighbours three_pixels [first_word] 0 0 = [(1, 0), (2, 0)]"
    by code_simp
  have f: "average_fill three_pixels [first_word] 0 0 = [150, 0, 0, 255]"
    by code_simp
  have i: "pixel_index three_pixels 0 0 = 0" "pixel_index three_pixels 2 0 = 8"
    by (simp_all add: pixel_index_def three_pixels_def)
  have r: "in_region first_word 0 0" "\<not> in_region first_word 2 0"
    by (simp_all add: in_region_def first_word_def)
  have d: "img_width three_pixels = 3" "img_height three_pixels = 1"
      "img_data three_pixels ! 8 = 200"
    by (simp_all add: three_pixels_def)
  have fw: "region_x first_word = 0" "region_y first_word = 0" "region_width first_word = 1"
      "region_height first_word = 1"
    by (simp_all add: first_word_def)
  have sw: "region_x second_word = 1" "region_y second_word = 0" "region_width second_word = 1"
      "region_height second_word = 1"
    by (simp_all add: second_word_def)
  show ?thesis
    using inpaintRegion_average_outside_region [of three_pixels 0 0 0 first_word "[]" three_pixels]
      inpaintRegion_average_outside_region [of three_pixels 2 0 0 first_word "[]" three_pixels]
      inpaintRegion_average_outside_region [of three_pixels 0 0 0 second_word "[first_word]"
        "inpaintRegion three_pixels 0 0 1 1"]
      wf0 n f i r d fw sw
    by simp
qed

text \<open>
  C7, as stated, fails. A pixel whose window holds no pixel outside its region is left as it
  was, alpha included: the single pixel keeps alpha 40. And only the region being filled is
  left out of the average, not every text region: with two adjoining regions the first
  pixel becomes the average 150 of the second pixel (inside the other region) and the third,
  and the second pixel 175, from the already filled first pixel and the third, where the
  average of the pixels outside every region is 200.
\<close>

theorem inpainting_not_average_outside_every_region:
  "handleRemoveText (Some one_pixel) [first_word] = Some one_pixel \<and>
   img_data one_pixel ! 3 = 40 \<and>
   handleRemoveText (Some three_pixels) [first_word, second_word] =
     Some \<lparr>img_width = 3, img_height = 1,
            img_data = [150, 0, 0, 255, 175, 0, 0, 255, 200, 0, 0, 255]\<rparr> \<and>
   average_fill three_pixels [first_word, second_word] 0 0 = [200, 0, 0, 255] \<and>
   average_fill three_pixels [first_word, second_word] 1 0 = [200, 0, 0, 255]"
proof (intro conjI)
  show "handleRemoveText (Some one_pixel) [first_word] = Some one_pixel"
    by code_simp
  show "img_data one_pixel ! 3 = 40"
    by (simp add: one_pixel_def)
  show "handleRemoveText (Some three_pixels) [first_word, second_word] =
     Some \<lparr>img_width = 3, img_height = 1,
            img_data = [150, 0, 0, 255, 175, 0, 0, 255, 200, 0, 0, 255]\<rparr>"
    by code_simp
  show "average_fill three_pixels [first_word, second_word] 0 0 = [200, 0, 0, 255]"
    by code_simp
  show "average_fill three_pixels [first_word, second_word] 1 0 = [200, 0, 0, 255]"
    by code_simp
qed

end
